theory Spec2Isabelle
  imports Main "HOL-Library.Word"
begin

unbundle bit_operations_syntax

section \<open>Data model of rfb.go\<close>

type_synonym byte = "8 word"
type_synonym uint16 = "16 word"
type_synonym uint32 = "32 word"

text \<open>
  Every \<open>panic\<close> and \<open>failf\<close> of the source is a value of \<open>error\<close>; a function that can
  panic returns \<open>error + 'a\<close> with \<open>Inl\<close> for the panic. \<open>NilDereference\<close> and
  \<open>IndexOutOfRange\<close> are the two run-time panics of Go that the modelled code can reach.
\<close>

datatype error =
    ReadError
  | BogusVersion
  | WrongAuthType byte
  | UnsupportedCommand byte
  | OnlyTrueColour
  | TodoBPP byte
  | TodoMaxValue uint16
  | TwoNilImages
  | DifferentSizes
  | NilDereference
  | IndexOutOfRange

text \<open>
  \<open>image.Rectangle\<close> with its two points flattened: \<open>MinX r\<close> is \<open>r.Min.X\<close>. Go's \<open>int\<close>
  is 64 bits wide; coordinates are modelled as \<open>int\<close>, which agrees with the source as long
  as no coordinate lies within 64 of the ends of the 64-bit range.
\<close>

record Rectangle =
  MinX :: int
  MinY :: int
  MaxX :: int
  MaxY :: int

text \<open>\<open>image.Rect\<close>: the canonical rectangle of two corners, given in any order.\<close>

definition Rect :: "int \<Rightarrow> int \<Rightarrow> int \<Rightarrow> int \<Rightarrow> Rectangle" where
  "Rect x0 y0 x1 y1 =
     \<lparr>MinX = (if x0 > x1 then x1 else x0), MinY = (if y0 > y1 then y1 else y0),
      MaxX = (if x0 > x1 then x0 else x1), MaxY = (if y0 > y1 then y0 else y1)\<rparr>"

definition Dx :: "Rectangle \<Rightarrow> int" where
  "Dx r = MaxX r - MinX r"

definition Dy :: "Rectangle \<Rightarrow> int" where
  "Dy r = MaxY r - MinY r"

text \<open>\<open>Point.In\<close>: the point \<open>(x, y)\<close> lies in \<open>r\<close>.\<close>

definition In :: "int \<Rightarrow> int \<Rightarrow> Rectangle \<Rightarrow> bool" where
  "In x y r \<longleftrightarrow> MinX r \<le> x \<and> x < MaxX r \<and> MinY r \<le> y \<and> y < MaxY r"

text \<open>\<open>color.RGBA\<close>, and its method \<open>RGBA()\<close> that widens every channel to 16 bits.\<close>

record color =
  cR :: byte
  cG :: byte
  cB :: byte
  cA :: byte

definition widen :: "byte \<Rightarrow> uint32" where
  "widen v = (ucast v :: uint32) OR push_bit 8 (ucast v)"

definition RGBA :: "color \<Rightarrow> uint32 \<times> uint32 \<times> uint32 \<times> uint32" where
  "RGBA col = (widen (cR col), widen (cG col), widen (cB col), widen (cA col))"

text \<open>
  A non-nil \<open>image.Image\<close>: its bounds and its pixel accessor. A nil interface value is
  \<open>None\<close> of \<open>image option\<close>.
\<close>

record image =
  Bounds :: Rectangle
  At :: "int \<Rightarrow> int \<Rightarrow> color"

text \<open>\<open>image.RGBA\<close>: the pixel buffer, the row stride and the bounds.\<close>

record RGBA_image =
  Pix :: "byte list"
  Stride :: int
  RGBA_Rect :: Rectangle

definition PixOffset :: "RGBA_image \<Rightarrow> int \<Rightarrow> int \<Rightarrow> int" where
  "PixOffset p x y = (y - MinY (RGBA_Rect p)) * Stride p + (x - MinX (RGBA_Rect p)) * 4"

text \<open>
  \<open>(*image.RGBA).RGBAAt\<close>: the zero colour outside the bounds, the four bytes at the pixel's
  offset inside, and a panic where the slice \<open>Pix[i : i+4]\<close> is out of range.
\<close>

definition RGBAAt :: "RGBA_image \<Rightarrow> int \<Rightarrow> int \<Rightarrow> error + color" where
  "RGBAAt p x y =
     (if \<not> In x y (RGBA_Rect p) then Inr \<lparr>cR = 0, cG = 0, cB = 0, cA = 0\<rparr>
      else let i = PixOffset p x y in
        if 0 \<le> i \<and> i + 4 \<le> int (length (Pix p))
        then Inr \<lparr>cR = Pix p ! nat i, cG = Pix p ! nat (i + 1),
                  cB = Pix p ! nat (i + 2), cA = Pix p ! nat (i + 3)\<rparr>
        else Inl IndexOutOfRange)"

text \<open>
  An \<open>*image.RGBA\<close> seen through the \<open>image.Image\<close> interface. It is used only for buffers
  that hold every pixel of the bounds, where \<open>RGBAAt\<close> cannot panic.
\<close>

definition RGBA_Image :: "RGBA_image \<Rightarrow> image" where
  "RGBA_Image p =
     \<lparr>Bounds = RGBA_Rect p,
      At = (\<lambda>x y. case RGBAAt p x y of Inr col \<Rightarrow> col
                   | Inl e \<Rightarrow> \<lparr>cR = 0, cG = 0, cB = 0, cA = 0\<rparr>)\<rparr>"

record PixelFormat =
  BPP :: byte
  Depth :: byte
  BigEndian :: byte
  TrueColour :: byte
  RedMax :: uint16
  GreenMax :: uint16
  BlueMax :: uint16
  RedShift :: byte
  GreenShift :: byte
  BlueShift :: byte

definition isScreensThousands :: "PixelFormat \<Rightarrow> bool" where
  "isScreensThousands f \<longleftrightarrow>
     BPP f = 16 \<and> (Depth f = 16 \<or> Depth f = 15) \<and> TrueColour f \<noteq> 0 \<and>
     RedMax f = 0x1f \<and> GreenMax f = 0x1f \<and> BlueMax f = 0x1f \<and>
     RedShift f = 10 \<and> GreenShift f = 5 \<and> BlueShift f = 0"

record FrameBufferUpdateRequest =
  IncrementalFlag :: byte
  ur_X :: uint16
  ur_Y :: uint16
  ur_Width :: uint16
  ur_Height :: uint16

definition incremental :: "FrameBufferUpdateRequest \<Rightarrow> bool" where
  "incremental r \<longleftrightarrow> IncrementalFlag r \<noteq> 0"

record KeyEvent =
  DownFlag :: byte
  Key :: uint32

record PointerEvent =
  ButtonMask :: byte
  pe_X :: uint16
  pe_Y :: uint16

text \<open>The values sent on the event channel (\<open>interface{}\<close> in the source).\<close>

datatype event = KeyEv KeyEvent | PointerEv PointerEvent

record LockableImage =
  Img :: "image option"

record Server =
  width :: int
  height :: int

text \<open>
  The connection. \<open>br\<close> is the client's byte stream not yet read, \<open>bw\<close> the bytes written
  so far. The channels \<open>fbupc\<close> (capacity 128) and \<open>event\<close> (capacity 16) are queues, oldest
  element first. The frame sink \<open>feed\<close> is filled by the host: the value pulled from it is a
  parameter of \<open>pushFrame\<close>.
\<close>

record Conn =
  server :: Server
  br :: "byte list"
  bw :: "byte list"
  fbupc :: "FrameBufferUpdateRequest list"
  format :: PixelFormat
  lastImg :: "image option"
  buf8 :: "byte list"
  event :: "event list"
  gotFirstFrame :: bool

definition NewServer :: "int \<Rightarrow> int \<Rightarrow> Server" where
  "NewServer w h =
     \<lparr>width = (if w < 1 then 1 else w), height = (if h < 1 then 1 else h)\<rparr>"

definition event_capacity :: nat where
  "event_capacity = 16"

section \<open>Dirty rectangle comparator\<close>

text \<open>Go's \<open>%\<close> truncates towards zero: the remainder has the sign of the dividend.\<close>

definition go_rem :: "int \<Rightarrow> int \<Rightarrow> int" where
  "go_rem a b = sgn a * (\<bar>a\<bar> mod \<bar>b\<bar>)"

definition minInt :: "int \<Rightarrow> int \<Rightarrow> int" where
  "minInt a b = (if a < b then a else b)"

definition sectionSize :: int where
  "sectionSize = 64"

text \<open>
  The three loops of \<open>compareImages\<close>. The state threaded through the two inner loops is
  the list \<open>rc\<close> and the set \<open>changedSections\<close> of the strip.
\<close>

function scan_x ::
  "image \<Rightarrow> image \<Rightarrow> Rectangle \<Rightarrow> int \<Rightarrow> int \<Rightarrow> int \<Rightarrow> Rectangle list \<times> int set
     \<Rightarrow> Rectangle list \<times> int set" where
  "scan_x oldImg newImg bounds sectionTop y x (rc, changedSections) =
     (if x < MaxX bounds then
        (if At oldImg x y \<noteq> At newImg x y then
           (let sectionLeft = x - go_rem x sectionSize in
            if sectionLeft \<in> changedSections
            then scan_x oldImg newImg bounds sectionTop y (x + 1) (rc, changedSections)
            else
              (let sectionRight = minInt (sectionLeft + sectionSize) (MaxX bounds);
                   sectionBottom = minInt (sectionTop + sectionSize) (MaxY bounds)
               in scan_x oldImg newImg bounds sectionTop y (x + 1)
                    (rc @ [Rect sectionLeft sectionTop sectionRight sectionBottom],
                     insert sectionLeft changedSections)))
         else scan_x oldImg newImg bounds sectionTop y (x + 1) (rc, changedSections))
      else (rc, changedSections))"
  by pat_completeness auto
termination
  by (relation "measure (\<lambda>(oldImg, newImg, bounds, sectionTop, y, x, st). nat (MaxX bounds - x))")
     auto

function scan_y ::
  "image \<Rightarrow> image \<Rightarrow> Rectangle \<Rightarrow> int \<Rightarrow> int \<Rightarrow> Rectangle list \<times> int set
     \<Rightarrow> Rectangle list \<times> int set" where
  "scan_y oldImg newImg bounds sectionTop y st =
     (if y < MaxY bounds
      then scan_y oldImg newImg bounds sectionTop (y + 1)
             (scan_x oldImg newImg bounds sectionTop y (MinX bounds) st)
      else st)"
  by pat_completeness auto
termination
  by (relation "measure (\<lambda>(oldImg, newImg, bounds, sectionTop, y, st). nat (MaxY bounds - y))")
     auto

function strips ::
  "image \<Rightarrow> image \<Rightarrow> Rectangle \<Rightarrow> int \<Rightarrow> Rectangle list \<Rightarrow> Rectangle list" where
  "strips oldImg newImg bounds sectionTop rc =
     (if sectionTop < MaxY bounds
      then strips oldImg newImg bounds (sectionTop + sectionSize)
             (fst (scan_y oldImg newImg bounds sectionTop sectionTop (rc, {})))
      else rc)"
  by pat_completeness auto
termination
  by (relation "measure (\<lambda>(oldImg, newImg, bounds, sectionTop, rc). nat (MaxY bounds - sectionTop))")
     (auto simp: sectionSize_def)

declare scan_x.simps [simp del] scan_y.simps [simp del] strips.simps [simp del]

definition compareImages :: "image option \<Rightarrow> image option \<Rightarrow> error + Rectangle list" where
  "compareImages oldImg newImg =
     (case (oldImg, newImg) of
        (None, None) \<Rightarrow> Inl TwoNilImages
      | (None, Some n) \<Rightarrow> Inr [Bounds n]
      | (Some a, None) \<Rightarrow> Inr []
      | (Some a, Some n) \<Rightarrow>
          if Bounds n \<noteq> Bounds a then Inl DifferentSizes
          else Inr (strips a n (Bounds n) (MinY (Bounds n)) []))"

section \<open>Pixel format transcoder\<close>

definition inRange :: "uint32 \<Rightarrow> uint16 \<Rightarrow> error + uint32" where
  "inRange v max_value =
     (if max_value = 0x1f then Inr (drop_bit (16 - 5) v)
      else if max_value = 0x03 then Inr (drop_bit (16 - 2) v)
      else Inl (TodoMaxValue max_value))"


text \<open>
  The body of the two loops of \<open>pushGenericLocked\<close>: one pixel, quantised channel by
  channel, composed, truncated to \<open>BPP\<close> bits and laid out in the client's byte order.
\<close>

definition bytes_u16_be :: "uint16 \<Rightarrow> byte list" where
  "bytes_u16_be v = [ucast (drop_bit 8 v), ucast v]"

definition bytes_u32_be :: "uint32 \<Rightarrow> byte list" where
  "bytes_u32_be v = [ucast (drop_bit 24 v), ucast (drop_bit 16 v), ucast (drop_bit 8 v), ucast v]"

definition pushGeneric_pixel :: "PixelFormat \<Rightarrow> color \<Rightarrow> error + byte list" where
  "pushGeneric_pixel f col =
     (case RGBA col of (r16, g16, b16, a16) \<Rightarrow>
      case inRange r16 (RedMax f) of Inl e \<Rightarrow> Inl e | Inr r \<Rightarrow>
      case inRange g16 (GreenMax f) of Inl e \<Rightarrow> Inl e | Inr g \<Rightarrow>
      case inRange b16 (BlueMax f) of Inl e \<Rightarrow> Inl e | Inr b \<Rightarrow>
      let u32 = push_bit (unat (RedShift f)) r OR push_bit (unat (GreenShift f)) g
                  OR push_bit (unat (BlueShift f)) b
      in if BPP f = 32 then
           Inr (if BigEndian f \<noteq> 0 then bytes_u32_be u32 else rev (bytes_u32_be u32))
         else if BPP f = 16 then
           Inr (if BigEndian f \<noteq> 0 then bytes_u16_be (ucast u32)
                else rev (bytes_u16_be (ucast u32)))
         else if BPP f = 8 then Inr [ucast u32]
         else Inl (TodoBPP (BPP f)))"

function pushGeneric_x :: "Conn \<Rightarrow> image option \<Rightarrow> Rectangle \<Rightarrow> int \<Rightarrow> int \<Rightarrow> error + Conn" where
  "pushGeneric_x c im rect y x =
     (if x < MaxX rect then
        (case im of
           None \<Rightarrow> Inl NilDereference
         | Some i \<Rightarrow>
             (case pushGeneric_pixel (format c) (At i x y) of
                Inl e \<Rightarrow> Inl e
              | Inr bs \<Rightarrow> pushGeneric_x (c\<lparr>bw := bw c @ bs\<rparr>) im rect y (x + 1)))
      else Inr c)"
  by pat_completeness auto
termination
  by (relation "measure (\<lambda>(c, im, rect, y, x). nat (MaxX rect - x))") auto

function pushGeneric_y :: "Conn \<Rightarrow> image option \<Rightarrow> Rectangle \<Rightarrow> int \<Rightarrow> error + Conn" where
  "pushGeneric_y c im rect y =
     (if y < MaxY rect then
        (case pushGeneric_x c im rect y (MinX rect) of
           Inl e \<Rightarrow> Inl e
         | Inr c' \<Rightarrow> pushGeneric_y c' im rect (y + 1))
      else Inr c)"
  by pat_completeness auto
termination
  by (relation "measure (\<lambda>(c, im, rect, y). nat (MaxY rect - y))") auto

declare pushGeneric_x.simps [simp del] pushGeneric_y.simps [simp del]

definition pushGenericLocked :: "Conn \<Rightarrow> image option \<Rightarrow> Rectangle \<Rightarrow> error + Conn" where
  "pushGenericLocked c im rect = pushGeneric_y c im rect (MinY rect)"

text \<open>
  The fast path. The loop runs over \<open>im.Pix\<close> with the index \<open>i\<close>, the accumulator \<open>u16\<close>
  and the slice \<open>out\<close>, which is \<open>buf8\<close> from the offset \<open>off\<close> on. Writing \<open>out[0]\<close> or
  \<open>out[1]\<close> beyond the end of the buffer panics.
\<close>

fun thousands_loop ::
  "bool \<Rightarrow> byte list \<Rightarrow> nat \<Rightarrow> uint16 \<Rightarrow> nat \<Rightarrow> byte list \<Rightarrow> error + byte list" where
  "thousands_loop isBigEndian [] i u16 off buf = Inr buf"
| "thousands_loop isBigEndian (v8 # pix) i u16 off buf =
     (if i mod 4 = 0 then
        thousands_loop isBigEndian pix (i + 1) (push_bit 7 (ucast (v8 AND 248))) off buf
      else if i mod 4 = 1 then
        thousands_loop isBigEndian pix (i + 1) (u16 OR push_bit 2 (ucast (v8 AND 248))) off buf
      else if i mod 4 = 2 then
        thousands_loop isBigEndian pix (i + 1) (u16 OR ucast (drop_bit 3 v8)) off buf
      else
        (let hb = (ucast (drop_bit 8 u16) :: byte); lb = (ucast u16 :: byte) in
         if off + 1 < length buf then
           thousands_loop isBigEndian pix (i + 1) u16 (off + 2)
             (if isBigEndian then buf[off := hb, off + 1 := lb]
              else buf[off := lb, off + 1 := hb])
         else Inl IndexOutOfRange))"

definition pushRGBAScreensThousandsLocked :: "Conn \<Rightarrow> RGBA_image \<Rightarrow> error + Conn" where
  "pushRGBAScreensThousandsLocked c im =
     (let pixels = length (Pix im) div 4;
          buf = (if length (buf8 c) < pixels * 2 then replicate (pixels * 2) 0 else buf8 c)
      in case thousands_loop (BigEndian (format c) \<noteq> 0) (Pix im) 0 0 0 buf of
           Inl e \<Rightarrow> Inl e
         | Inr buf' \<Rightarrow> Inr (c\<lparr>buf8 := buf', bw := bw c @ take (pixels * 2) buf'\<rparr>))"

section \<open>Wire codec\<close>

definition readByte :: "Conn \<Rightarrow> error + (byte \<times> Conn)" where
  "readByte c = (case br c of [] \<Rightarrow> Inl ReadError | b # rest \<Rightarrow> Inr (b, c\<lparr>br := rest\<rparr>))"

fun readPadding :: "Conn \<Rightarrow> nat \<Rightarrow> error + Conn" where
  "readPadding c 0 = Inr c"
| "readPadding c (Suc n) =
     (case readByte c of Inl e \<Rightarrow> Inl e | Inr (b, c') \<Rightarrow> readPadding c' n)"

text \<open>\<open>read\<close> into a \<open>uint8\<close>, a \<open>uint16\<close> and a 32-bit value, big-endian.\<close>

definition read_u8 :: "Conn \<Rightarrow> error + (byte \<times> Conn)" where
  "read_u8 c = (case br c of b # rest \<Rightarrow> Inr (b, c\<lparr>br := rest\<rparr>) | _ \<Rightarrow> Inl ReadError)"

definition read_u16 :: "Conn \<Rightarrow> error + (uint16 \<times> Conn)" where
  "read_u16 c =
     (case br c of
        b1 # b0 # rest \<Rightarrow> Inr (push_bit 8 (ucast b1) OR ucast b0, c\<lparr>br := rest\<rparr>)
      | _ \<Rightarrow> Inl ReadError)"

definition read_u32 :: "Conn \<Rightarrow> error + (uint32 \<times> Conn)" where
  "read_u32 c =
     (case br c of
        b3 # b2 # b1 # b0 # rest \<Rightarrow>
          Inr (push_bit 24 (ucast b3) OR push_bit 16 (ucast b2) OR push_bit 8 (ucast b1)
                 OR ucast b0, c\<lparr>br := rest\<rparr>)
      | _ \<Rightarrow> Inl ReadError)"

definition WriteString :: "Conn \<Rightarrow> byte list \<Rightarrow> Conn" where
  "WriteString c bs = c\<lparr>bw := bw c @ bs\<rparr>"

definition w_u8 :: "Conn \<Rightarrow> byte \<Rightarrow> Conn" where
  "w_u8 c v = c\<lparr>bw := bw c @ [v]\<rparr>"

definition w_u16 :: "Conn \<Rightarrow> uint16 \<Rightarrow> Conn" where
  "w_u16 c v = c\<lparr>bw := bw c @ bytes_u16_be v\<rparr>"

definition w_u32 :: "Conn \<Rightarrow> uint32 \<Rightarrow> Conn" where
  "w_u32 c v = c\<lparr>bw := bw c @ bytes_u32_be v\<rparr>"

text \<open>
  \<open>bufio.Reader.ReadSlice\<close> on a reader of the default size: the bytes up to and including
  the first delimiter, or an error when the stream ends, or 4096 bytes pass, without one.
\<close>

definition ReadSlice :: "Conn \<Rightarrow> byte \<Rightarrow> error + (byte list \<times> Conn)" where
  "ReadSlice c delim =
     (let line = takeWhile (\<lambda>b. b \<noteq> delim) (br c) in
      if length line < length (br c) \<and> length line < 4096
      then Inr (line @ [delim], c\<lparr>br := drop (length line + 1) (br c)\<rparr>)
      else Inl ReadError)"


text \<open>Sequencing of steps that can panic: the first panic ends the run.\<close>

definition bindE :: "error + 'a \<Rightarrow> ('a \<Rightarrow> error + 'b) \<Rightarrow> error + 'b" where
  "bindE m f = (case m of Inl e \<Rightarrow> Inl e | Inr a \<Rightarrow> f a)"

section \<open>Connection state machine\<close>

definition str :: "string \<Rightarrow> byte list" where
  "str cs = map (\<lambda>ch. of_nat (of_char ch)) cs"

definition v3 :: "byte list" where
  "v3 = str ''RFB 003.003'' @ [0x0a]"

definition v7 :: "byte list" where
  "v7 = str ''RFB 003.007'' @ [0x0a]"

definition v8 :: "byte list" where
  "v8 = str ''RFB 003.008'' @ [0x0a]"

definition authNone :: byte where
  "authNone = 1"

definition statusOK :: uint32 where
  "statusOK = 0"

definition encodingRaw :: uint32 where
  "encodingRaw = 0"

definition cmdFramebufferUpdate :: byte where
  "cmdFramebufferUpdate = 0"

definition serverName :: "byte list" where
  "serverName = str ''rfb-go''"

text \<open>Go compares strings byte by byte: \<open>string_ge a b\<close> is \<open>a >= b\<close>.\<close>

fun string_less :: "byte list \<Rightarrow> byte list \<Rightarrow> bool" where
  "string_less [] [] = False"
| "string_less [] (y # ys) = True"
| "string_less (x # xs) [] = False"
| "string_less (x # xs) (y # ys) = (x < y \<or> (x = y \<and> string_less xs ys))"

definition string_ge :: "byte list \<Rightarrow> byte list \<Rightarrow> bool" where
  "string_ge a b \<longleftrightarrow> \<not> string_less a b"

definition dimensions :: "Conn \<Rightarrow> int \<times> int" where
  "dimensions c = (width (server c), height (server c))"

definition defaultFormat :: PixelFormat where
  "defaultFormat =
     \<lparr>BPP = 16, Depth = 16, BigEndian = 0, TrueColour = 1,
      RedMax = 0x1f, GreenMax = 0x1f, BlueMax = 0x1f,
      RedShift = 0xa, GreenShift = 0x5, BlueShift = 0\<rparr>"

text \<open>The security step of \<open>serve\<close>, for a client version \<open>ver\<close> already accepted.\<close>

definition serve_auth :: "Conn \<Rightarrow> byte list \<Rightarrow> error + Conn" where
  "serve_auth c ver =
     (if string_ge ver v7 then
        bindE (readByte (WriteString c [0x01, 0x01])) (\<lambda>(wanted, c').
          if wanted \<noteq> authNone then Inl (WrongAuthType wanted) else Inr c')
      else Inr (w_u32 c (ucast authNone)))"

text \<open>The ServerInit message of \<open>serve\<close>, written field by field.\<close>

definition serve_init :: "Conn \<Rightarrow> Conn" where
  "serve_init c0 =
     (let c = c0\<lparr>format := defaultFormat\<rparr>;
          (width, height) = dimensions c;
          c = w_u16 c (word_of_int width);
          c = w_u16 c (word_of_int height);
          c = w_u8 c (BPP (format c));
          c = w_u8 c (Depth (format c));
          c = w_u8 c (BigEndian (format c));
          c = w_u8 c (TrueColour (format c));
          c = w_u16 c (RedMax (format c));
          c = w_u16 c (GreenMax (format c));
          c = w_u16 c (BlueMax (format c));
          c = w_u8 c (RedShift (format c));
          c = w_u8 c (GreenShift (format c));
          c = w_u8 c (BlueShift (format c));
          c = w_u8 c 0;
          c = w_u8 c 0;
          c = w_u8 c 0;
          c = w_u32 c (of_nat (length serverName))
      in WriteString c serverName)"

text \<open>\<open>serve\<close> from its first write to the flush after ServerInit.\<close>

definition handshake :: "Conn \<Rightarrow> error + Conn" where
  "handshake c0 =
     bindE (ReadSlice (WriteString c0 v8) 0x0a) (\<lambda>(ver, c).
       if ver \<noteq> v3 \<and> ver \<noteq> v7 \<and> ver \<noteq> v8 then Inl BogusVersion
       else
         bindE (serve_auth c ver) (\<lambda>c.
           bindE (readByte (if string_ge ver v8 then w_u32 c statusOK else c))
             (\<lambda>(wantShared, c). Inr (serve_init c))))"

definition handleSetPixelFormat :: "Conn \<Rightarrow> error + Conn" where
  "handleSetPixelFormat c0 =
     bindE (readPadding c0 3) (\<lambda>c.
     bindE (read_u8 c) (\<lambda>(bpp, c).
     bindE (read_u8 c) (\<lambda>(depth, c).
     bindE (read_u8 c) (\<lambda>(beflag, c).
     bindE (read_u8 c) (\<lambda>(truecolour, c).
     bindE (read_u16 c) (\<lambda>(redmax, c).
     bindE (read_u16 c) (\<lambda>(greenmax, c).
     bindE (read_u16 c) (\<lambda>(bluemax, c).
     bindE (read_u8 c) (\<lambda>(redshift, c).
     bindE (read_u8 c) (\<lambda>(greenshift, c).
     bindE (read_u8 c) (\<lambda>(blueshift, c).
     bindE (readPadding c 3) (\<lambda>c.
       Inr (c\<lparr>format :=
               \<lparr>BPP = bpp, Depth = depth, BigEndian = beflag, TrueColour = truecolour,
                RedMax = redmax, GreenMax = greenmax, BlueMax = bluemax,
                RedShift = redshift, GreenShift = greenshift,
                BlueShift = blueshift\<rparr>\<rparr>)))))))))))))"

fun readEncodings :: "Conn \<Rightarrow> nat \<Rightarrow> error + Conn" where
  "readEncodings c 0 = Inr c"
| "readEncodings c (Suc n) = bindE (read_u32 c) (\<lambda>(t, c'). readEncodings c' n)"

definition handleSetEncodings :: "Conn \<Rightarrow> error + Conn" where
  "handleSetEncodings c0 =
     bindE (readPadding c0 1) (\<lambda>c.
     bindE (read_u16 c) (\<lambda>(numEncodings, c). readEncodings c (unat numEncodings)))"

text \<open>
  The send on \<open>fbupc\<close> blocks while 128 requests wait; the model appends to the queue,
  which is what the send does once it goes through.
\<close>

definition handleUpdateRequest :: "Conn \<Rightarrow> error + Conn" where
  "handleUpdateRequest c0 =
     bindE (read_u8 (c0\<lparr>gotFirstFrame := True\<rparr>)) (\<lambda>(flag, c).
     bindE (read_u16 c) (\<lambda>(x, c).
     bindE (read_u16 c) (\<lambda>(y, c).
     bindE (read_u16 c) (\<lambda>(w, c).
     bindE (read_u16 c) (\<lambda>(h, c).
       Inr (c\<lparr>fbupc := fbupc c @
               [\<lparr>IncrementalFlag = flag, ur_X = x, ur_Y = y,
                 ur_Width = w, ur_Height = h\<rparr>]\<rparr>))))))"

text \<open>
  The \<open>select\<close> with a \<open>default\<close> branch: the event is queued when the channel has room
  and dropped otherwise.
\<close>

definition send_event :: "Conn \<Rightarrow> event \<Rightarrow> Conn" where
  "send_event c ev =
     (if length (event c) < event_capacity then c\<lparr>event := event c @ [ev]\<rparr> else c)"

definition handleKeyEvent :: "Conn \<Rightarrow> error + Conn" where
  "handleKeyEvent c0 =
     bindE (read_u8 c0) (\<lambda>(downflag, c).
     bindE (readPadding c 2) (\<lambda>c.
     bindE (read_u32 c) (\<lambda>(key, c).
       Inr (send_event c (KeyEv \<lparr>DownFlag = downflag, Key = key\<rparr>)))))"

definition handlePointerEvent :: "Conn \<Rightarrow> error + Conn" where
  "handlePointerEvent c0 =
     bindE (read_u8 c0) (\<lambda>(mask, c).
     bindE (read_u16 c) (\<lambda>(x, c).
     bindE (read_u16 c) (\<lambda>(y, c).
       Inr (send_event c (PointerEv \<lparr>ButtonMask = mask, pe_X = x, pe_Y = y\<rparr>)))))"

text \<open>One round of the command loop of \<open>serve\<close>.\<close>

definition serve_command :: "Conn \<Rightarrow> error + Conn" where
  "serve_command c0 =
     bindE (readByte c0) (\<lambda>(cmd, c).
       if cmd = 0 then handleSetPixelFormat c
       else if cmd = 2 then handleSetEncodings c
       else if cmd = 3 then handleUpdateRequest c
       else if cmd = 5 then handlePointerEvent c
       else if cmd = 4 then handleKeyEvent c
       else Inl (UnsupportedCommand cmd))"

section \<open>Frame pipeline\<close>

fun pushRects :: "Conn \<Rightarrow> image option \<Rightarrow> Rectangle list \<Rightarrow> error + Conn" where
  "pushRects c im [] = Inr c"
| "pushRects c im (rect # rects) =
     (let c1 = w_u16 c (word_of_int (MinX rect));
          c2 = w_u16 c1 (word_of_int (MinY rect));
          c3 = w_u16 c2 (word_of_int (Dx rect));
          c4 = w_u16 c3 (word_of_int (Dy rect));
          c5 = w_u32 c4 encodingRaw
      in bindE (pushGenericLocked c5 im rect) (\<lambda>c'. pushRects c' im rects))"

definition pushImage :: "Conn \<Rightarrow> LockableImage \<Rightarrow> FrameBufferUpdateRequest \<Rightarrow> error + Conn" where
  "pushImage c0 li ur =
     bindE (if incremental ur then compareImages (Img li) (lastImg c0)
            else (case Img li of None \<Rightarrow> Inl NilDereference | Some im \<Rightarrow> Inr [Bounds im]))
       (\<lambda>rects.
          let c = w_u8 c0 cmdFramebufferUpdate;
              c = w_u8 c 0;
              c = w_u16 c (of_nat (length rects))
          in if TrueColour (format c) = 0 then Inl OnlyTrueColour
             else bindE (pushRects c (Img li) rects) (\<lambda>c'. Inr (c'\<lparr>lastImg := Img li\<rparr>)))"

text \<open>\<open>li\<close> is the handle pulled from the frame sink; \<open>None\<close> is the nil handle.\<close>

definition pushFrame :: "Conn \<Rightarrow> LockableImage option \<Rightarrow> FrameBufferUpdateRequest \<Rightarrow> error + Conn" where
  "pushFrame c li ur = (case li of None \<Rightarrow> Inr c | Some l \<Rightarrow> pushImage c l ur)"

text \<open>
  One round of \<open>pushFramesLoop\<close>: the oldest request leaves the queue and is served with
  the handle \<open>li\<close>. With no request waiting the worker waits, and nothing changes.
\<close>

definition pushFramesLoop_round :: "Conn \<Rightarrow> LockableImage option \<Rightarrow> error + Conn" where
  "pushFramesLoop_round c li =
     (case fbupc c of [] \<Rightarrow> Inr c | ur # q \<Rightarrow> pushFrame (c\<lparr>fbupc := q\<rparr>) li ur)"


text \<open>
  \<open>Server.newConn\<close>: the connection as \<open>serve\<close> finds it, over the byte stream that the
  client is going to send. The fields not set by the source have Go's zero values.
\<close>

definition newConn :: "Server \<Rightarrow> byte list \<Rightarrow> Conn" where
  "newConn srv stream =
     \<lparr>server = srv, br = stream, bw = [], fbupc = [],
      format = \<lparr>BPP = 0, Depth = 0, BigEndian = 0, TrueColour = 0,
                RedMax = 0, GreenMax = 0, BlueMax = 0,
                RedShift = 0, GreenShift = 0, BlueShift = 0\<rparr>,
      lastImg = None, buf8 = [], event = [], gotFirstFrame = False\<rparr>"

section \<open>Panics and goroutines\<close>

text \<open>
  \<open>serve\<close> runs in a goroutine of its own and defers a function that calls \<open>recover\<close>:
  a panic raised while \<open>serve\<close> runs is logged as a client disconnect, the deferred calls
  close the connection and its channels, and the program goes on. \<open>pushFramesLoop\<close> is
  started by \<open>go c.pushFramesLoop()\<close> and defers nothing: a panic raised there, in
  \<open>pushFrame\<close> or below, leaves its goroutine unrecovered, and Go then ends the whole
  program.
\<close>

datatype outcome = Continues Conn | ClientDisconnect error | ProgramExit error

definition serve_recover :: "error + Conn \<Rightarrow> outcome" where
  "serve_recover r = (case r of Inl e \<Rightarrow> ClientDisconnect e | Inr c \<Rightarrow> Continues c)"

text \<open>One round of the command loop, in the goroutine of \<open>serve\<close>.\<close>

definition serve_goroutine :: "Conn \<Rightarrow> outcome" where
  "serve_goroutine c = serve_recover (serve_command c)"

text \<open>One round of the push worker, in the goroutine of \<open>pushFramesLoop\<close>.\<close>

definition pushFramesLoop_goroutine :: "Conn \<Rightarrow> LockableImage option \<Rightarrow> outcome" where
  "pushFramesLoop_goroutine c li =
     (case pushFramesLoop_round c li of Inl e \<Rightarrow> ProgramExit e | Inr c' \<Rightarrow> Continues c')"

text \<open>
  \<open>consumes n c c'\<close>: from \<open>c\<close> to \<open>c'\<close> exactly the next \<open>n\<close> bytes of the client's stream
  have been read, and the server is the same.
\<close>

definition consumes :: "nat \<Rightarrow> Conn \<Rightarrow> Conn \<Rightarrow> bool" where
  "consumes n c c' \<longleftrightarrow> n \<le> length (br c) \<and> br c' = drop n (br c) \<and> server c' = server c"

section \<open>The two encodings of a pixel buffer\<close>

text \<open>
  What the fast path writes for one pixel, for the pixel number \<open>k\<close> of a buffer, and for
  the pixels \<open>k\<close> to \<open>n - 1\<close>; a buffer that holds exactly the pixels of its bounds, row
  after row; the number of a pixel in such a buffer; and the pixel layout of the
  "Thousands" format.
\<close>

definition thousands_u16 :: "byte \<Rightarrow> byte \<Rightarrow> byte \<Rightarrow> uint16" where
  "thousands_u16 r g b =
     push_bit 7 (ucast (r AND 248)) OR push_bit 2 (ucast (g AND 248)) OR ucast (drop_bit 3 b)"

definition thousands_pixel :: "bool \<Rightarrow> byte \<Rightarrow> byte \<Rightarrow> byte \<Rightarrow> byte list" where
  "thousands_pixel isBigEndian r g b =
     (if isBigEndian
      then [ucast (drop_bit 8 (thousands_u16 r g b)), ucast (thousands_u16 r g b)]
      else [ucast (thousands_u16 r g b), ucast (drop_bit 8 (thousands_u16 r g b))])"

definition px_at :: "bool \<Rightarrow> byte list \<Rightarrow> nat \<Rightarrow> byte list" where
  "px_at isBigEndian pix k =
     thousands_pixel isBigEndian (pix ! (4 * k)) (pix ! (4 * k + 1)) (pix ! (4 * k + 2))"

definition px_range :: "bool \<Rightarrow> byte list \<Rightarrow> nat \<Rightarrow> nat \<Rightarrow> byte list" where
  "px_range isBigEndian pix k n = concat (map (px_at isBigEndian pix) [k..<n])"

definition contiguous :: "RGBA_image \<Rightarrow> bool" where
  "contiguous p \<longleftrightarrow>
     MinX (RGBA_Rect p) \<le> MaxX (RGBA_Rect p) \<and> MinY (RGBA_Rect p) \<le> MaxY (RGBA_Rect p) \<and>
     Stride p = 4 * Dx (RGBA_Rect p) \<and>
     int (length (Pix p)) = 4 * (Dx (RGBA_Rect p) * Dy (RGBA_Rect p))"

definition pix_index :: "RGBA_image \<Rightarrow> int \<Rightarrow> int \<Rightarrow> int" where
  "pix_index p x y = (y - MinY (RGBA_Rect p)) * Dx (RGBA_Rect p) + (x - MinX (RGBA_Rect p))"

definition thousands_layout :: "PixelFormat \<Rightarrow> bool" where
  "thousands_layout f \<longleftrightarrow>
     BPP f = 16 \<and> RedMax f = 0x1f \<and> GreenMax f = 0x1f \<and> BlueMax f = 0x1f \<and>
     RedShift f = 10 \<and> GreenShift f = 5 \<and> BlueShift f = 0"

section \<open>Example inputs\<close>

definition black :: color where
  "black = \<lparr>cR = 0, cG = 0, cB = 0, cA = 255\<rparr>"

definition white :: color where
  "white = \<lparr>cR = 255, cG = 255, cB = 255, cA = 255\<rparr>"

text \<open>Two images of one column and 65 rows that differ at the pixel \<open>(0, 64)\<close> only.\<close>

definition column_black :: image where
  "column_black = \<lparr>Bounds = Rect 0 0 1 65, At = (\<lambda>x y. black)\<rparr>"

definition column_dot :: image where
  "column_dot =
     \<lparr>Bounds = Rect 0 0 1 65, At = (\<lambda>x y. if x = 0 \<and> y = 64 then white else black)\<rparr>"

text \<open>An image of a single black pixel.\<close>

definition one_pixel :: image where
  "one_pixel = \<lparr>Bounds = Rect 0 0 1 1, At = (\<lambda>x y. black)\<rparr>"


text \<open>An incremental and a full update request for the rectangle of one pixel.\<close>

definition incremental_request :: FrameBufferUpdateRequest where
  "incremental_request =
     \<lparr>IncrementalFlag = 1, ur_X = 0, ur_Y = 0, ur_Width = 1, ur_Height = 1\<rparr>"

definition full_request :: FrameBufferUpdateRequest where
  "full_request = \<lparr>IncrementalFlag = 0, ur_X = 0, ur_Y = 0, ur_Width = 1, ur_Height = 1\<rparr>"

text \<open>
  A connection to a server of one pixel once the handshake is over, with \<open>stream\<close> still
  to come from the client and nothing written since.
\<close>

definition after_handshake :: "byte list \<Rightarrow> Conn" where
  "after_handshake stream = (newConn (NewServer 1 1) stream)\<lparr>format := defaultFormat\<rparr>"

text \<open>A red and a green pixel in one row.\<close>

definition two_pixels :: RGBA_image where
  "two_pixels = \<lparr>Pix = [255, 0, 0, 255, 0, 255, 0, 255], Stride = 8, RGBA_Rect = Rect 0 0 2 1\<rparr>"

section \<open>Properties\<close>

lemma bindE_simps [simp]:
  "bindE (Inl e) f = Inl e" "bindE (Inr a) f = f a"
  by (simp_all add: bindE_def)

subsection \<open>Quantisation\<close>

lemma pushGenericLocked_first_pixel:
  assumes "MinX rect < MaxX rect" "MinY rect < MaxY rect"
    and "pushGeneric_pixel (format c) (At im (MinX rect) (MinY rect)) = Inl e"
  shows "pushGenericLocked c (Some im) rect = Inl e"
  using assms
  by (simp add: pushGenericLocked_def pushGeneric_y.simps [of c _ rect "MinY rect"]
      pushGeneric_x.simps [of c _ rect _ "MinX rect"])

text \<open>
  The quantisation in general: the two supported maxima, the panic of \<open>inRange\<close> on every
  other maximum, and with it the panic of \<open>pushGenericLocked\<close> on any rectangle that
  holds a pixel, whichever of the three channels has the unsupported maximum.
\<close>

lemma inRange_cases:
  "inRange v 0x1f = Inr (drop_bit 11 v) \<and> inRange v 0x03 = Inr (drop_bit 14 v) \<and>
   (m \<noteq> 0x1f \<and> m \<noteq> 0x03 \<longrightarrow> inRange v m = Inl (TodoMaxValue m)) \<and>
   (MinX rect < MaxX rect \<and> MinY rect < MaxY rect \<and>
    (RedMax (format c) \<notin> {0x1f, 0x03} \<or> GreenMax (format c) \<notin> {0x1f, 0x03}
       \<or> BlueMax (format c) \<notin> {0x1f, 0x03}) \<longrightarrow>
    (\<exists>m'. m' \<notin> {0x1f, 0x03} \<and> pushGenericLocked c (Some im) rect = Inl (TodoMaxValue m')))"
proof -
  have q: "inRange v 0x1f = Inr (drop_bit 11 v)" "inRange v 0x03 = Inr (drop_bit 14 v)"
    by (simp_all add: inRange_def)
  have other: "inRange v m = Inl (TodoMaxValue m)" if "m \<noteq> 0x1f" "m \<noteq> 0x03"
    using that by (simp add: inRange_def)
  have px: "\<exists>m'. m' \<notin> {0x1f, 0x03} \<and> pushGeneric_pixel f col = Inl (TodoMaxValue m')"
    if "RedMax f \<notin> {0x1f, 0x03} \<or> GreenMax f \<notin> {0x1f, 0x03} \<or> BlueMax f \<notin> {0x1f, 0x03}"
    for f col
    using that by (auto simp: pushGeneric_pixel_def inRange_def RGBA_def)
  have gen: "\<exists>m'. m' \<notin> {0x1f, 0x03} \<and> pushGenericLocked c (Some im) rect = Inl (TodoMaxValue m')"
    if "MinX rect < MaxX rect" "MinY rect < MaxY rect"
      "RedMax (format c) \<notin> {0x1f, 0x03} \<or> GreenMax (format c) \<notin> {0x1f, 0x03}
       \<or> BlueMax (format c) \<notin> {0x1f, 0x03}"
  proof -
    from px [OF that(3)] obtain m' where
      "m' \<notin> {0x1f, 0x03}"
      "pushGeneric_pixel (format c) (At im (MinX rect) (MinY rect)) = Inl (TodoMaxValue m')"
      by blast
    with pushGenericLocked_first_pixel [OF that(1,2)] show ?thesis by blast
  qed
  show ?thesis using q other gen by blast
qed

text \<open>
  C4. A channel value \<open>v\<close> is quantised to \<open>v >> 11\<close> for the maximum \<open>0x1F\<close> and to
  \<open>v >> 14\<close> for the maximum \<open>0x03\<close>, and every other maximum makes \<open>inRange\<close> panic, as
  the claim says. The claim has this panic terminate the connection, and there the code
  departs from it. The transcoder runs only in the goroutine of the push worker, which
  recovers nothing: once a client has set the green maximum to \<open>0x00FF\<close> with a
  SetPixelFormat message and has asked for an update, the panic of \<open>inRange\<close> on the first
  pixel ends the program. Only a panic in the goroutine of \<open>serve\<close>, such as the one on an
  unknown command byte, is recovered and ends the connection alone.
\<close>

theorem unsupported_max_exits_program:
  "inRange v m =
     (if m = 0x1f then Inr (drop_bit 11 v)
      else if m = 0x03 then Inr (drop_bit 14 v) else Inl (TodoMaxValue m)) \<and>
   bindE (serve_command
            (after_handshake
               ([0, 0, 0, 0, 16, 16, 0, 1, 0, 0x1f, 0, 0xff, 0, 0x1f, 10, 5, 0, 0, 0, 0] @
                [3, 0, 0, 0, 0, 0, 0, 1, 0, 1])))
     serve_command =
     Inr ((after_handshake [])
          \<lparr>format := defaultFormat\<lparr>GreenMax := 0xff\<rparr>, fbupc := [full_request],
           gotFirstFrame := True\<rparr>) \<and>
   pushFramesLoop_goroutine
     ((after_handshake [])
        \<lparr>format := defaultFormat\<lparr>GreenMax := 0xff\<rparr>, fbupc := [full_request],
         gotFirstFrame := True\<rparr>)
     (Some \<lparr>Img = Some one_pixel\<rparr>) = ProgramExit (TodoMaxValue 0xff) \<and>
   serve_goroutine (after_handshake [0x7f]) = ClientDisconnect (UnsupportedCommand 0x7f)"
proof (intro conjI)
  show "inRange v m =
     (if m = 0x1f then Inr (drop_bit 11 v)
      else if m = 0x03 then Inr (drop_bit 14 v) else Inl (TodoMaxValue m))"
    by (simp add: inRange_def)
  show "bindE (serve_command
            (after_handshake
               ([0, 0, 0, 0, 16, 16, 0, 1, 0, 0x1f, 0, 0xff, 0, 0x1f, 10, 5, 0, 0, 0, 0] @
                [3, 0, 0, 0, 0, 0, 0, 1, 0, 1])))
     serve_command =
     Inr ((after_handshake [])
          \<lparr>format := defaultFormat\<lparr>GreenMax := 0xff\<rparr>, fbupc := [full_request],
           gotFirstFrame := True\<rparr>)"
    by (simp add: after_handshake_def newConn_def defaultFormat_def full_request_def
        serve_command_def readByte_def handleSetPixelFormat_def handleUpdateRequest_def
        read_u8_def read_u16_def numeral_3_eq_3)
  show "pushFramesLoop_goroutine
     ((after_handshake [])
        \<lparr>format := defaultFormat\<lparr>GreenMax := 0xff\<rparr>, fbupc := [full_request],
         gotFirstFrame := True\<rparr>)
     (Some \<lparr>Img = Some one_pixel\<rparr>) = ProgramExit (TodoMaxValue 0xff)"
    by (simp add: pushFramesLoop_goroutine_def pushFramesLoop_round_def pushFrame_def
        pushImage_def incremental_def full_request_def after_handshake_def newConn_def
        defaultFormat_def one_pixel_def Rect_def Dx_def Dy_def w_u8_def w_u16_def w_u32_def
        bytes_u16_be_def bytes_u32_be_def cmdFramebufferUpdate_def encodingRaw_def
        pushGenericLocked_def pushGeneric_y.simps pushGeneric_x.simps pushGeneric_pixel_def
        RGBA_def widen_def black_def inRange_def)
  show "serve_goroutine (after_handshake [0x7f]) = ClientDisconnect (UnsupportedCommand 0x7f)"
    by (simp add: serve_goroutine_def serve_recover_def serve_command_def readByte_def
        after_handshake_def newConn_def)
qed

subsection \<open>Comparator\<close>

text \<open>
  The checks of \<open>compareImages\<close> that come before its loops: it panics exactly when both
  images are nil, or both are non-nil and their bounds differ.
\<close>

lemma compareImages_panics_iff:
  "(\<exists>e. compareImages oldImg newImg = Inl e) \<longleftrightarrow>
     (oldImg = None \<and> newImg = None) \<or>
     (\<exists>a b. oldImg = Some a \<and> newImg = Some b \<and> Bounds b \<noteq> Bounds a)"
  by (cases oldImg; cases newImg) (auto simp: compareImages_def)

text \<open>
  C7. \<open>compareImages\<close> signals its caller error, a panic, on two nil images and on two
  images of different bounds, as the claim says. The claim has this error be fatal to the
  connection, and there the code departs from it. \<open>compareImages\<close> is called only from
  the push worker, whose goroutine recovers nothing: when the first frame that the host
  sends for an incremental request holds a nil image, or a later frame has other bounds
  than the last one sent, the panic ends the program. Only a panic in the goroutine of
  \<open>serve\<close>, such as the one on an unknown command byte, is recovered and ends the
  connection alone.
\<close>

theorem compareImages_panic_exits_program:
  "compareImages None None = Inl TwoNilImages \<and>
   compareImages (Some column_dot) (Some one_pixel) = Inl DifferentSizes \<and>
   pushFramesLoop_goroutine ((after_handshake [])\<lparr>fbupc := [incremental_request]\<rparr>)
     (Some \<lparr>Img = None\<rparr>) = ProgramExit TwoNilImages \<and>
   pushFramesLoop_goroutine
     ((after_handshake [])\<lparr>lastImg := Some one_pixel, fbupc := [incremental_request]\<rparr>)
     (Some \<lparr>Img = Some column_dot\<rparr>) = ProgramExit DifferentSizes \<and>
   serve_goroutine (after_handshake [0x7f]) = ClientDisconnect (UnsupportedCommand 0x7f)"
  by (simp add: compareImages_def column_dot_def one_pixel_def Rect_def
      pushFramesLoop_goroutine_def pushFramesLoop_round_def pushFrame_def pushImage_def
      incremental_def incremental_request_def after_handshake_def newConn_def
      serve_goroutine_def serve_recover_def serve_command_def readByte_def)

text \<open>
  C2. A nil new image is the host's signal for "no change", and for it the comparator
  returns the empty list: \<open>compareImages(old, nil)\<close> is \<open>[]\<close> for a non-nil \<open>old\<close>. With
  a nil handle the push worker returns before it writes anything. With a handle whose
  image is nil, however, the worker does not get the empty list that the claim asks for:
  it calls \<open>compareImages(li.Img, lastImg)\<close>, the new image in the place of the old one,
  so that the nil new image takes the first-frame branch and the one rectangle returned is
  the bounds of the image sent last. Encoding this rectangle from the nil image panics,
  and in the goroutine of the worker the panic ends the program. The same exchange answers
  the first incremental request, when nothing has been sent yet, with zero rectangles.
\<close>

theorem worker_swaps_images:
  "pushFrame c None ur = Inr c \<and>
   compareImages (Some one_pixel) None = Inr [] \<and>
   compareImages None (Some one_pixel) = Inr [Bounds one_pixel] \<and>
   pushFrame ((after_handshake [])\<lparr>lastImg := Some one_pixel\<rparr>) (Some \<lparr>Img = None\<rparr>)
     incremental_request = Inl NilDereference \<and>
   pushFramesLoop_goroutine
     ((after_handshake [])\<lparr>lastImg := Some one_pixel, fbupc := [incremental_request]\<rparr>)
     (Some \<lparr>Img = None\<rparr>) = ProgramExit NilDereference \<and>
   pushFrame (after_handshake []) (Some \<lparr>Img = Some one_pixel\<rparr>) incremental_request =
     Inr ((after_handshake [])\<lparr>bw := [0, 0, 0, 0], lastImg := Some one_pixel\<rparr>)"
  by (simp add: pushFrame_def pushImage_def compareImages_def one_pixel_def Rect_def
      incremental_def incremental_request_def after_handshake_def newConn_def
      defaultFormat_def pushFramesLoop_goroutine_def pushFramesLoop_round_def
      w_u8_def w_u16_def w_u32_def bytes_u16_be_def bytes_u32_be_def cmdFramebufferUpdate_def
      encodingRaw_def Dx_def Dy_def pushGenericLocked_def pushGeneric_y.simps
      pushGeneric_x.simps)

subsection \<open>Input events\<close>

text \<open>
  C8. A KeyEvent command (one flag byte, two padding bytes, a 32-bit key) and a
  PointerEvent command (a mask byte and two 16-bit coordinates) are parsed and queued on
  the event channel when fewer than 16 events wait there. With 16 events waiting the event
  is dropped: the handler returns all the same, without a panic, and only the bytes read
  have left the client's stream.
\<close>

theorem events_never_block:
  "handleKeyEvent (c\<lparr>br := d # p1 # p2 # k3 # k2 # k1 # k0 # rest\<rparr>) =
     Inr (if length (event c) < 16
          then c\<lparr>br := rest,
                 event := event c @
                   [KeyEv \<lparr>DownFlag = d,
                           Key = push_bit 24 (ucast k3) OR push_bit 16 (ucast k2)
                                   OR push_bit 8 (ucast k1) OR ucast k0\<rparr>]\<rparr>
          else c\<lparr>br := rest\<rparr>) \<and>
   handlePointerEvent (c\<lparr>br := m # x1 # x0 # y1 # y0 # rest\<rparr>) =
     Inr (if length (event c) < 16
          then c\<lparr>br := rest,
                 event := event c @
                   [PointerEv \<lparr>ButtonMask = m, pe_X = push_bit 8 (ucast x1) OR ucast x0,
                               pe_Y = push_bit 8 (ucast y1) OR ucast y0\<rparr>]\<rparr>
          else c\<lparr>br := rest\<rparr>)"
  by (simp add: handleKeyEvent_def handlePointerEvent_def read_u8_def read_u16_def read_u32_def
      readByte_def send_event_def event_capacity_def numeral_2_eq_2)


subsection \<open>Reading from the client\<close>

lemma bindE_InrE:
  assumes "bindE m f = Inr y"
  obtains a where "m = Inr a" "f a = Inr y"
  using assms by (cases m) simp_all

lemma bindE_pair_InrE:
  assumes "bindE m (\<lambda>(a, c). f a c) = Inr y"
  obtains a c where "m = Inr (a, c)" "f a c = Inr y"
  using assms by (cases m) auto

lemma consumes_trans [trans]:
  "consumes n c c1 \<Longrightarrow> consumes m c1 c2 \<Longrightarrow> consumes (n + m) c c2"
proof -
  assume a: "consumes n c c1" and b: "consumes m c1 c2"
  from a have a1: "n \<le> length (br c)" and a2: "br c1 = drop n (br c)"
    and a3: "server c1 = server c"
    by (simp_all add: consumes_def)
  from b have b1: "m \<le> length (br c1)" and b2: "br c2 = drop m (br c1)"
    and b3: "server c2 = server c1"
    by (simp_all add: consumes_def)
  from a1 b1 have "n + m \<le> length (br c)" by (simp add: a2)
  moreover have "br c2 = drop (n + m) (br c)" by (simp add: b2 a2 add.commute)
  moreover have "server c2 = server c" by (simp add: b3 a3)
  ultimately show ?thesis by (simp add: consumes_def)
qed

lemma consumes_refl: "consumes 0 c c"
  by (simp add: consumes_def)

lemma readByte_Inr: "readByte c = Inr (b, c') \<Longrightarrow> consumes 1 c c'"
  by (auto simp: readByte_def consumes_def split: list.splits)

lemma read_u8_Inr: "read_u8 c = Inr (b, c') \<Longrightarrow> consumes 1 c c'"
  by (auto simp: read_u8_def consumes_def split: list.splits)

lemma read_u16_Inr: "read_u16 c = Inr (v, c') \<Longrightarrow> consumes 2 c c'"
  by (auto simp: read_u16_def consumes_def split: list.splits)

lemma read_u32_Inr: "read_u32 c = Inr (v, c') \<Longrightarrow> consumes 4 c c'"
  by (auto simp: read_u32_def consumes_def split: list.splits)

lemma readPadding_Inr: "readPadding c n = Inr c' \<Longrightarrow> consumes n c c'"
proof (induction n arbitrary: c)
  case 0
  then show ?case by (simp add: consumes_refl)
next
  case (Suc n)
  from Suc.prems obtain b c1 where r: "readByte c = Inr (b, c1)" and p: "readPadding c1 n = Inr c'"
    by (auto split: sum.splits)
  from consumes_trans [OF readByte_Inr [OF r] Suc.IH [OF p]] show ?case by simp
qed

lemma handleSetPixelFormat_Inr:
  assumes "handleSetPixelFormat c = Inr c'"
  shows "consumes 19 c c'"
proof -
  from assms obtain c1 bpp c2 depth c3 beflag c4 truecolour c5 redmax c6 greenmax c7
      bluemax c8 redshift c9 greenshift c10 blueshift c11 c12 f where
    r: "readPadding c 3 = Inr c1" "read_u8 c1 = Inr (bpp, c2)" "read_u8 c2 = Inr (depth, c3)"
      "read_u8 c3 = Inr (beflag, c4)" "read_u8 c4 = Inr (truecolour, c5)"
      "read_u16 c5 = Inr (redmax, c6)" "read_u16 c6 = Inr (greenmax, c7)"
      "read_u16 c7 = Inr (bluemax, c8)" "read_u8 c8 = Inr (redshift, c9)"
      "read_u8 c9 = Inr (greenshift, c10)" "read_u8 c10 = Inr (blueshift, c11)"
      "readPadding c11 3 = Inr c12"
    and fin: "Inr (c12\<lparr>format := f\<rparr>) = (Inr c' :: error + Conn)"
    unfolding handleSetPixelFormat_def by (elim bindE_pair_InrE bindE_InrE)
  note readPadding_Inr [OF r(1)]
  also note read_u8_Inr [OF r(2)]
  also note read_u8_Inr [OF r(3)]
  also note read_u8_Inr [OF r(4)]
  also note read_u8_Inr [OF r(5)]
  also note read_u16_Inr [OF r(6)]
  also note read_u16_Inr [OF r(7)]
  also note read_u16_Inr [OF r(8)]
  also note read_u8_Inr [OF r(9)]
  also note read_u8_Inr [OF r(10)]
  also note read_u8_Inr [OF r(11)]
  also note readPadding_Inr [OF r(12)]
  finally have "consumes 19 c c12" by simp
  with fin show ?thesis by (auto simp: consumes_def)
qed

lemma consumes_server: "consumes n c c' \<Longrightarrow> server c' = server c"
  by (simp add: consumes_def)

lemma readEncodings_server:
  "readEncodings c n = Inr c' \<Longrightarrow> server c' = server c"
proof (induction n arbitrary: c)
  case 0
  then show ?case by simp
next
  case (Suc n)
  from Suc.prems have "bindE (read_u32 c) (\<lambda>(t, c'). readEncodings c' n) = Inr c'" by simp
  then obtain t c1 where r: "read_u32 c = Inr (t, c1)" and p: "readEncodings c1 n = Inr c'"
    by (rule bindE_pair_InrE)
  from consumes_server [OF read_u32_Inr [OF r]] Suc.IH [OF p] show ?case by simp
qed

lemma handleSetEncodings_server:
  assumes "handleSetEncodings c = Inr c'"
  shows "server c' = server c"
proof -
  from assms obtain c1 n c2 where
    r: "readPadding c 1 = Inr c1" "read_u16 c1 = Inr (n, c2)"
      "readEncodings c2 (unat n) = Inr c'"
    unfolding handleSetEncodings_def by (elim bindE_pair_InrE bindE_InrE)
  from consumes_server [OF readPadding_Inr [OF r(1)]] consumes_server [OF read_u16_Inr [OF r(2)]]
    readEncodings_server [OF r(3)]
  show ?thesis by simp
qed

lemma handleUpdateRequest_server:
  assumes "handleUpdateRequest c = Inr c'"
  shows "server c' = server c"
proof -
  from assms obtain flag c1 x c2 y c3 w c4 h c5 q where
    r: "read_u8 (c\<lparr>gotFirstFrame := True\<rparr>) = Inr (flag, c1)" "read_u16 c1 = Inr (x, c2)"
      "read_u16 c2 = Inr (y, c3)" "read_u16 c3 = Inr (w, c4)" "read_u16 c4 = Inr (h, c5)"
    and fin: "Inr (c5\<lparr>fbupc := q\<rparr>) = (Inr c' :: error + Conn)"
    unfolding handleUpdateRequest_def by (elim bindE_pair_InrE)
  note read_u8_Inr [OF r(1)]
  also note read_u16_Inr [OF r(2)]
  also note read_u16_Inr [OF r(3)]
  also note read_u16_Inr [OF r(4)]
  also note read_u16_Inr [OF r(5)]
  finally have "server c5 = server c" by (simp add: consumes_def)
  with fin show ?thesis by auto
qed

lemma send_event_server: "server (send_event c ev) = server c"
  by (simp add: send_event_def)

lemma handleKeyEvent_server:
  assumes "handleKeyEvent c = Inr c'"
  shows "server c' = server c"
proof -
  from assms obtain d c1 c2 k c3 ev where
    r: "read_u8 c = Inr (d, c1)" "readPadding c1 2 = Inr c2" "read_u32 c2 = Inr (k, c3)"
    and fin: "Inr (send_event c3 ev) = (Inr c' :: error + Conn)"
    unfolding handleKeyEvent_def by (elim bindE_pair_InrE bindE_InrE)
  note read_u8_Inr [OF r(1)]
  also note readPadding_Inr [OF r(2)]
  also note read_u32_Inr [OF r(3)]
  finally have "server c3 = server c" by (simp add: consumes_def)
  with fin show ?thesis by (auto simp: send_event_server)
qed

lemma handlePointerEvent_server:
  assumes "handlePointerEvent c = Inr c'"
  shows "server c' = server c"
proof -
  from assms obtain m c1 x c2 y c3 ev where
    r: "read_u8 c = Inr (m, c1)" "read_u16 c1 = Inr (x, c2)" "read_u16 c2 = Inr (y, c3)"
    and fin: "Inr (send_event c3 ev) = (Inr c' :: error + Conn)"
    unfolding handlePointerEvent_def by (elim bindE_pair_InrE)
  note read_u8_Inr [OF r(1)]
  also note read_u16_Inr [OF r(2)]
  also note read_u16_Inr [OF r(3)]
  finally have "server c3 = server c" by (simp add: consumes_def)
  with fin show ?thesis by (auto simp: send_event_server)
qed

lemma serve_command_server:
  assumes "serve_command c = Inr c'"
  shows "server c' = server c"
proof -
  from assms obtain cmd c1 where
    r: "readByte c = Inr (cmd, c1)"
    and d: "(if cmd = 0 then handleSetPixelFormat c1
       else if cmd = 2 then handleSetEncodings c1
       else if cmd = 3 then handleUpdateRequest c1
       else if cmd = 5 then handlePointerEvent c1
       else if cmd = 4 then handleKeyEvent c1
       else Inl (UnsupportedCommand cmd)) = Inr c'"
    unfolding serve_command_def by (rule bindE_pair_InrE)
  from d have "server c' = server c1"
    by (auto split: if_splits dest: consumes_server [OF handleSetPixelFormat_Inr]
        handleSetEncodings_server handleUpdateRequest_server handleKeyEvent_server
        handlePointerEvent_server)
  with consumes_server [OF readByte_Inr [OF r]] show ?thesis by simp
qed

lemma w_server:
  "server (w_u8 c b) = server c" "server (w_u16 c v) = server c"
  "server (w_u32 c u) = server c" "server (WriteString c bs) = server c"
  by (simp_all add: w_u8_def w_u16_def w_u32_def WriteString_def)

lemma serve_init_server: "server (serve_init c) = server c"
  by (simp add: serve_init_def Let_def dimensions_def w_server)

lemma ReadSlice_server: "ReadSlice c d = Inr (l, c') \<Longrightarrow> server c' = server c"
  by (auto simp: ReadSlice_def Let_def split: if_splits)

lemma serve_auth_server:
  assumes "serve_auth c ver = Inr c'"
  shows "server c' = server c"
proof (cases "string_ge ver v7")
  case True
  with assms obtain wanted c1 where
    r: "readByte (WriteString c [0x01, 0x01]) = Inr (wanted, c1)"
    and fin: "(if wanted \<noteq> authNone then Inl (WrongAuthType wanted) else Inr c1) = Inr c'"
    unfolding serve_auth_def by (auto elim: bindE_pair_InrE)
  from fin have "c' = c1" by (simp split: if_splits)
  with consumes_server [OF readByte_Inr [OF r]] show ?thesis by (simp add: w_server)
next
  case False
  with assms show ?thesis by (auto simp: serve_auth_def w_server)
qed

lemma handshake_server:
  assumes "handshake c = Inr c'"
  shows "server c' = server c"
proof -
  from assms obtain ver ca where
    rs: "ReadSlice (WriteString c v8) 0x0a = Inr (ver, ca)"
    and rest: "(if ver \<noteq> v3 \<and> ver \<noteq> v7 \<and> ver \<noteq> v8 then Inl BogusVersion
       else bindE (serve_auth ca ver) (\<lambda>c.
           bindE (readByte (if string_ge ver v8 then w_u32 c statusOK else c))
             (\<lambda>(wantShared, c). Inr (serve_init c)))) = Inr c'"
    unfolding handshake_def by (rule bindE_pair_InrE)
  from rest have "bindE (serve_auth ca ver) (\<lambda>c.
           bindE (readByte (if string_ge ver v8 then w_u32 c statusOK else c))
             (\<lambda>(wantShared, c). Inr (serve_init c))) = Inr c'"
    by (simp split: if_splits)
  then obtain c1 where auth: "serve_auth ca ver = Inr c1"
    and rb: "bindE (readByte (if string_ge ver v8 then w_u32 c1 statusOK else c1))
             (\<lambda>(wantShared, c). Inr (serve_init c)) = Inr c'"
    by (rule bindE_InrE)
  from rb obtain b c2 where
    r2: "readByte (if string_ge ver v8 then w_u32 c1 statusOK else c1) = Inr (b, c2)"
    and fin: "Inr (serve_init c2) = (Inr c' :: error + Conn)"
    by (rule bindE_pair_InrE)
  from fin have "server c' = server c2" by (auto simp: serve_init_server)
  also from consumes_server [OF readByte_Inr [OF r2]] have "server c2 = server c1"
    by (simp add: w_server split: if_splits)
  also from serve_auth_server [OF auth] have "server c1 = server ca" .
  also from ReadSlice_server [OF rs] have "server ca = server c" by (simp add: w_server)
  finally show ?thesis .
qed

lemma pushGeneric_x_server:
  "pushGeneric_x c im rect y x = Inr c' \<Longrightarrow> server c' = server c"
proof (induction c im rect y x rule: pushGeneric_x.induct)
  case (1 c im rect y x)
  show ?case
  proof (cases "x < MaxX rect")
    case True
    with "1.prems" obtain i bs where
      im: "im = Some i" and px: "pushGeneric_pixel (format c) (At i x y) = Inr bs"
      and rest: "pushGeneric_x (c\<lparr>bw := bw c @ bs\<rparr>) im rect y (x + 1) = Inr c'"
      by (auto simp: pushGeneric_x.simps [of c im rect y x] split: option.splits sum.splits)
    from "1.IH" [OF True im px rest] show ?thesis by simp
  next
    case False
    with "1.prems" show ?thesis by (simp add: pushGeneric_x.simps [of c im rect y x])
  qed
qed

lemma pushGeneric_y_server:
  "pushGeneric_y c im rect y = Inr c' \<Longrightarrow> server c' = server c"
proof (induction c im rect y rule: pushGeneric_y.induct)
  case (1 c im rect y)
  show ?case
  proof (cases "y < MaxY rect")
    case True
    with "1.prems" obtain c1 where
      row: "pushGeneric_x c im rect y (MinX rect) = Inr c1"
      and rest: "pushGeneric_y c1 im rect (y + 1) = Inr c'"
      by (auto simp: pushGeneric_y.simps [of c im rect y] split: sum.splits)
    from "1.IH" [OF True row rest] pushGeneric_x_server [OF row] show ?thesis by simp
  next
    case False
    with "1.prems" show ?thesis by (simp add: pushGeneric_y.simps [of c im rect y])
  qed
qed

lemma pushRects_server:
  "pushRects c im rects = Inr c' \<Longrightarrow> server c' = server c"
proof (induction rects arbitrary: c)
  case Nil
  then show ?case by simp
next
  case (Cons rect rects)
  define c5 where "c5 = w_u32 (w_u16 (w_u16 (w_u16 (w_u16 c (word_of_int (MinX rect)))
          (word_of_int (MinY rect))) (word_of_int (Dx rect))) (word_of_int (Dy rect))) encodingRaw"
  from Cons.prems
  have "bindE (pushGenericLocked c5 im rect) (\<lambda>c'. pushRects c' im rects) = Inr c'"
    by (simp add: c5_def Let_def)
  then obtain c1 where
    g: "pushGenericLocked c5 im rect = Inr c1"
    and rest: "pushRects c1 im rects = Inr c'"
    by (rule bindE_InrE)
  from pushGeneric_y_server [OF g [unfolded pushGenericLocked_def]] Cons.IH [OF rest]
  show ?case by (simp add: c5_def w_server)
qed

lemma pushImage_server:
  assumes "pushImage c li ur = Inr c'"
  shows "server c' = server c"
proof -
  from assms obtain rects where
    body: "(let c1 = w_u8 c cmdFramebufferUpdate; c2 = w_u8 c1 0;
                c3 = w_u16 c2 (of_nat (length rects))
            in if TrueColour (format c3) = 0 then Inl OnlyTrueColour
               else bindE (pushRects c3 (Img li) rects) (\<lambda>c'. Inr (c'\<lparr>lastImg := Img li\<rparr>)))
           = Inr c'"
    unfolding pushImage_def by (rule bindE_InrE)
  define c3 where "c3 = w_u16 (w_u8 (w_u8 c cmdFramebufferUpdate) 0) (of_nat (length rects))"
  from body have "bindE (pushRects c3 (Img li) rects) (\<lambda>c'. Inr (c'\<lparr>lastImg := Img li\<rparr>)) = Inr c'"
    by (simp only: Let_def c3_def split: if_splits) simp_all
  then obtain c4 where p: "pushRects c3 (Img li) rects = Inr c4"
    and e: "Inr (c4\<lparr>lastImg := Img li\<rparr>) = (Inr c' :: error + Conn)"
    by (rule bindE_InrE)
  from pushRects_server [OF p] e show ?thesis by (auto simp: c3_def w_server)
qed

lemma pushFramesLoop_round_server:
  assumes "pushFramesLoop_round c li = Inr c'"
  shows "server c' = server c"
proof (cases "fbupc c")
  case Nil
  with assms show ?thesis by (simp add: pushFramesLoop_round_def)
next
  case (Cons ur q)
  with assms have pf: "pushFrame (c\<lparr>fbupc := q\<rparr>) li ur = Inr c'"
    by (simp add: pushFramesLoop_round_def)
  show ?thesis
  proof (cases li)
    case None
    with pf show ?thesis by (auto simp: pushFrame_def)
  next
    case (Some l)
    with pf have "pushImage (c\<lparr>fbupc := q\<rparr>) l ur = Inr c'" by (simp add: pushFrame_def)
    from pushImage_server [OF this] show ?thesis by simp
  qed
qed

subsection \<open>Server dimensions\<close>

text \<open>
  C9. Whatever two integers \<open>NewServer\<close> gets, the width and the height of the server
  it builds are at least 1: an argument below 1 is replaced by 1, any other is kept. No
  operation on a connection changes them: the handshake, every command of the command loop
  and every round of the push worker leave the connection's server as it was.
\<close>

theorem NewServer_dimensions:
  "1 \<le> width (NewServer w h) \<and> 1 \<le> height (NewServer w h) \<and>
   width (NewServer w h) = max 1 w \<and> height (NewServer w h) = max 1 h \<and>
   (handshake c = Inr c' \<longrightarrow> server c' = server c) \<and>
   (serve_command c = Inr c' \<longrightarrow> server c' = server c) \<and>
   (pushFramesLoop_round c li = Inr c' \<longrightarrow> server c' = server c)"
  using handshake_server [of c c'] serve_command_server [of c c']
    pushFramesLoop_round_server [of c li c']
  by (simp add: NewServer_def)

theorem NewServer_dimensions_witness:
  "width (NewServer 0 (- 5)) = 1 \<and> height (NewServer 0 (- 5)) = 1 \<and>
   width (NewServer 1280 720) = 1280 \<and> height (NewServer 1280 720) = 720 \<and>
   serve_command (newConn (NewServer 0 (- 5)) [5, 7, 0, 16, 0, 32]) =
     Inr ((newConn (NewServer 0 (- 5)) [])
          \<lparr>event := [PointerEv \<lparr>ButtonMask = 7, pe_X = 16, pe_Y = 32\<rparr>]\<rparr>) \<and>
   server ((newConn (NewServer 0 (- 5)) [])
          \<lparr>event := [PointerEv \<lparr>ButtonMask = 7, pe_X = 16, pe_Y = 32\<rparr>]\<rparr>) =
     server (newConn (NewServer 0 (- 5)) [5, 7, 0, 16, 0, 32])"
  using NewServer_dimensions [of 0 "- 5" "newConn (NewServer 0 (- 5)) [5, 7, 0, 16, 0, 32]"
      "(newConn (NewServer 0 (- 5)) [])
          \<lparr>event := [PointerEv \<lparr>ButtonMask = 7, pe_X = 16, pe_Y = 32\<rparr>]\<rparr>" None]
    NewServer_dimensions [of 1280 720]
  by (simp add: NewServer_def newConn_def serve_command_def readByte_def handlePointerEvent_def
      read_u8_def read_u16_def send_event_def event_capacity_def)

subsection \<open>SetPixelFormat\<close>

text \<open>
  C6, as the claim states it, has the handler read 3 + 16 + 3 = 22 bytes. The handler
  reads 19: on a stream of a well-formed message followed by the bytes 7, 8, 9, these three
  bytes are still unread when it returns.
\<close>

theorem handleSetPixelFormat_consumes_counterexample:
  "handleSetPixelFormat
     (newConn (NewServer 2 1)
        ([0, 0, 0, 16, 16, 0, 1, 0, 0x1f, 0, 0x1f, 0, 0x1f, 10, 5, 0, 0, 0, 0] @ [7, 8, 9])) =
   Inr ((newConn (NewServer 2 1) [7, 8, 9])\<lparr>format := defaultFormat\<rparr>)"
  by (simp add: handleSetPixelFormat_def newConn_def defaultFormat_def read_u8_def read_u16_def
      readByte_def numeral_3_eq_3)

text \<open>
  C6, amended. After the command byte, \<open>handleSetPixelFormat\<close> reads 3 padding bytes,
  the 13 bytes of the ten pixel-format fields (four bytes, three big-endian 16-bit maxima,
  three bytes) and 3 trailing padding bytes, 19 bytes in all, and installs the ten fields
  as the connection's format, unchanged. Whenever it returns it has read exactly 19 bytes,
  and on a stream shorter than that it panics.
\<close>

theorem handleSetPixelFormat_installs:
  "handleSetPixelFormat
     (c\<lparr>br := [p1, p2, p3, bpp, depth, be, tc, rm1, rm0, gm1, gm0, bm1, bm0, rs, gs, bs,
               q1, q2, q3] @ rest\<rparr>) =
     Inr (c\<lparr>br := rest,
            format := \<lparr>BPP = bpp, Depth = depth, BigEndian = be, TrueColour = tc,
                       RedMax = push_bit 8 (ucast rm1) OR ucast rm0,
                       GreenMax = push_bit 8 (ucast gm1) OR ucast gm0,
                       BlueMax = push_bit 8 (ucast bm1) OR ucast bm0,
                       RedShift = rs, GreenShift = gs, BlueShift = bs\<rparr>\<rparr>) \<and>
   (handleSetPixelFormat c = Inr c' \<longrightarrow>
      19 \<le> length (br c) \<and> br c' = drop 19 (br c)) \<and>
   (length (br c) < 19 \<longrightarrow> (\<exists>e. handleSetPixelFormat c = Inl e))"
proof -
  have a: "handleSetPixelFormat
     (c\<lparr>br := [p1, p2, p3, bpp, depth, be, tc, rm1, rm0, gm1, gm0, bm1, bm0, rs, gs, bs,
               q1, q2, q3] @ rest\<rparr>) =
     Inr (c\<lparr>br := rest,
            format := \<lparr>BPP = bpp, Depth = depth, BigEndian = be, TrueColour = tc,
                       RedMax = push_bit 8 (ucast rm1) OR ucast rm0,
                       GreenMax = push_bit 8 (ucast gm1) OR ucast gm0,
                       BlueMax = push_bit 8 (ucast bm1) OR ucast bm0,
                       RedShift = rs, GreenShift = gs, BlueShift = bs\<rparr>\<rparr>)"
    by (simp add: handleSetPixelFormat_def read_u8_def read_u16_def readByte_def numeral_3_eq_3)
  have b: "19 \<le> length (br c) \<and> br c' = drop 19 (br c)" if "handleSetPixelFormat c = Inr c'"
    using handleSetPixelFormat_Inr [OF that] by (simp add: consumes_def)
  have c: "\<exists>e. handleSetPixelFormat c = Inl e" if "length (br c) < 19"
  proof (cases "handleSetPixelFormat c")
    case (Inl e)
    then show ?thesis by blast
  next
    case (Inr c'')
    from handleSetPixelFormat_Inr [OF this] that show ?thesis by (simp add: consumes_def)
  qed
  from a b c show ?thesis by blast
qed

theorem handleSetPixelFormat_installs_witness:
  "handleSetPixelFormat
     (newConn (NewServer 2 1)
        [0, 0, 0, 16, 16, 0, 1, 0, 0x1f, 0, 0x1f, 0, 0x1f, 10, 5, 0, 0, 0, 0, 7, 8, 9]) =
     Inr ((newConn (NewServer 2 1) [7, 8, 9])\<lparr>format := defaultFormat\<rparr>) \<and>
   br ((newConn (NewServer 2 1) [7, 8, 9])\<lparr>format := defaultFormat\<rparr>) =
     drop 19 [0, 0, 0, 16, 16, 0, 1, 0, 0x1f, 0, 0x1f, 0, 0x1f, 10, 5, 0, 0, 0, 0, 7, 8, 9] \<and>
   (\<exists>e. handleSetPixelFormat (newConn (NewServer 2 1) [0, 0, 0, 16]) = Inl e)"
  using handleSetPixelFormat_installs [of 0 0 0 16 16 0 1 0 "0x1f" 0 "0x1f" 0 "0x1f" 10 5 0 0 0 0
      "[7, 8, 9]" "newConn (NewServer 2 1) []"
      "(newConn (NewServer 2 1) [7, 8, 9])\<lparr>format := defaultFormat\<rparr>"]
    handleSetPixelFormat_installs [of _ _ _ _ _ _ _ _ _ _ _ _ _ _ _ _ _ _ _ _
      "newConn (NewServer 2 1) [0, 0, 0, 16]"]
  by (simp add: newConn_def defaultFormat_def)

subsection \<open>Handshake\<close>

text \<open>
  C3. On a new connection whose client sends \<open>"RFB 003.003\n"\<close> and then a shared-flag
  byte, the handshake writes exactly: the 12 bytes \<open>"RFB 003.008\n"\<close>; the four bytes
  00 00 00 01 (security type None as a 32-bit value, and no SecurityResult); the 16-bit
  width and height; the default pixel format (16, 16, 0, 1, the three maxima 0x001F, the
  shifts 10, 5, 0); three padding bytes; the 32-bit length 6; and \<open>"rfb-go"\<close>. It leaves
  the default format installed and the rest of the client's stream unread.
\<close>

theorem handshake_v3:
  "handshake (newConn (NewServer w h) (str ''RFB 003.003'' @ [0x0a] @ [shared] @ rest)) =
   Inr ((newConn (NewServer w h) rest)
        \<lparr>bw := str ''RFB 003.008'' @ [0x0a]
               @ [0, 0, 0, 1]
               @ bytes_u16_be (word_of_int (width (NewServer w h)))
               @ bytes_u16_be (word_of_int (height (NewServer w h)))
               @ [16, 16, 0, 1, 0, 0x1f, 0, 0x1f, 0, 0x1f, 10, 5, 0]
               @ [0, 0, 0]
               @ [0, 0, 0, 6]
               @ str ''rfb-go'',
         format := \<lparr>BPP = 16, Depth = 16, BigEndian = 0, TrueColour = 1,
                     RedMax = 0x1f, GreenMax = 0x1f, BlueMax = 0x1f,
                     RedShift = 10, GreenShift = 5, BlueShift = 0\<rparr>\<rparr>)"
  by (simp add: handshake_def ReadSlice_def WriteString_def v3_def v7_def v8_def str_def
     serve_auth_def string_ge_def w_u32_def bytes_u32_be_def authNone_def readByte_def
     serve_init_def dimensions_def defaultFormat_def w_u16_def w_u8_def bytes_u16_be_def
     serverName_def newConn_def)

subsection \<open>Comparator on a single changed pixel\<close>

text \<open>
  C1. The claim asks for exactly one rectangle, which holds the changed pixel. On two
  images of one column and 65 rows that differ at \<open>(0, 64)\<close> only, \<open>compareImages\<close>
  returns two rectangles, and the first of them, the tile of rows 0 to 63, does not hold
  the changed pixel: the row loop of a strip runs to the bottom of the image instead of the
  bottom of the strip, so every strip above a changed pixel reports its tile as well.
\<close>

theorem compareImages_two_strips:
  "Bounds column_black = Bounds column_dot \<and>
   (\<forall>x y. (At column_black x y \<noteq> At column_dot x y) = (x = 0 \<and> y = 64)) \<and>
   compareImages (Some column_black) (Some column_dot) = Inr [Rect 0 0 1 64, Rect 0 64 1 65] \<and>
   \<not> In 0 64 (Rect 0 0 1 64)"
proof -
  have same: "Bounds column_black = Bounds column_dot"
    by (simp add: column_black_def column_dot_def)
  have one: "\<forall>x y. (At column_black x y \<noteq> At column_dot x y) = (x = 0 \<and> y = 64)"
    by (simp add: column_black_def column_dot_def black_def white_def)
  have two: "compareImages (Some column_black) (Some column_dot) =
      Inr [Rect 0 0 1 64, Rect 0 64 1 65]"
    by (simp add: compareImages_def column_black_def column_dot_def Rect_def strips.simps
        scan_y.simps scan_x.simps sectionSize_def minInt_def go_rem_def black_def white_def)
  have out: "\<not> In 0 64 (Rect 0 0 1 64)"
    by (simp add: In_def Rect_def)
  from same one two out show ?thesis by blast
qed

subsection \<open>Update requests\<close>




subsection \<open>Fast path and generic path\<close>

lemma mask248: "(248 :: byte) = NOT (mask 3)"
  by (simp add: mask_eq_exp_minus_1)

lemma widen_drop: "drop_bit 11 (widen v) = (ucast (drop_bit 3 v) :: uint32)"
  apply (rule bit_word_eqI)
  apply (auto simp: widen_def bit_simps dest: bit_imp_le_length)
  done

lemma compose16:
  "(ucast (push_bit 10 (ucast (drop_bit 3 (r :: byte)) :: uint32)
      OR push_bit 5 (ucast (drop_bit 3 (g :: byte)) :: uint32)
      OR (ucast (drop_bit 3 b) :: uint32)) :: uint16) = thousands_u16 r g b"
  unfolding mask248 thousands_u16_def
  apply (rule bit_word_eqI)
  apply (auto simp: bit_simps dest: bit_imp_le_length)
  done

lemma pushGeneric_pixel_thousands:
  assumes "BPP f = 16" "RedMax f = 0x1f" "GreenMax f = 0x1f" "BlueMax f = 0x1f"
    "RedShift f = 10" "GreenShift f = 5" "BlueShift f = 0"
  shows "pushGeneric_pixel f \<lparr>cR = r, cG = g, cB = b, cA = a\<rparr> =
         Inr (thousands_pixel (BigEndian f \<noteq> 0) r g b)"
  using assms
  by (simp add: pushGeneric_pixel_def RGBA_def inRange_def widen_drop compose16
      thousands_pixel_def bytes_u16_be_def)

lemma update_two:
  "off + 1 < length buf \<Longrightarrow>
   buf[off := x, off + 1 := y] = take off buf @ [x, y] @ drop (off + 2) buf"
proof (induction off arbitrary: buf)
  case 0
  then obtain a b rest where "buf = a # b # rest"
    by (cases buf; cases "tl buf") auto
  then show ?case by simp
next
  case (Suc off)
  then obtain a buf' where buf: "buf = a # buf'" by (cases buf) auto
  with Suc.prems have "off + 1 < length buf'" by simp
  from Suc.IH [OF this] buf show ?case by simp
qed

lemma length_thousands_pixel: "length (thousands_pixel be r g b) = 2"
  by (simp add: thousands_pixel_def)

lemma length_px_at: "length (px_at be pix k) = 2"
  by (simp add: px_at_def length_thousands_pixel)

lemma length_px_range: "length (px_range be pix k n) = 2 * (n - k)"
  by (induction n) (simp_all add: px_range_def length_px_at Suc_diff_le)

lemma px_range_empty: "px_range be pix n n = []"
  by (simp add: px_range_def)

lemma px_range_step: "k < n \<Longrightarrow> px_range be pix k n = px_at be pix k @ px_range be pix (Suc k) n"
  by (simp add: px_range_def upt_conv_Cons)

lemma px_range_append:
  assumes "k \<le> m" "m \<le> n"
  shows "px_range be pix k m @ px_range be pix m n = px_range be pix k n"
proof -
  from assms have "[k..<n] = [k..<m] @ [m..<n]"
    using upt_add_eq_append [of k m "n - m"] by simp
  then show ?thesis by (simp add: px_range_def)
qed

lemma loop_red:
  "i mod 4 = 0 \<Longrightarrow>
   thousands_loop be (v # pix) i u off buf =
   thousands_loop be pix (i + 1) (push_bit 7 (ucast (v AND 248))) off buf"
  by simp

lemma loop_green:
  "i mod 4 = 1 \<Longrightarrow>
   thousands_loop be (v # pix) i u off buf =
   thousands_loop be pix (i + 1) (u OR push_bit 2 (ucast (v AND 248))) off buf"
  by simp

lemma loop_blue:
  "i mod 4 = 2 \<Longrightarrow>
   thousands_loop be (v # pix) i u off buf =
   thousands_loop be pix (i + 1) (u OR ucast (drop_bit 3 v)) off buf"
  by simp

lemma loop_alpha:
  "i mod 4 = 3 \<Longrightarrow> off + 1 < length buf \<Longrightarrow>
   thousands_loop be (v # pix) i u off buf =
   thousands_loop be pix (i + 1) u (off + 2)
     (take off buf @
      (if be then [ucast (drop_bit 8 u), ucast u] else [ucast u, ucast (drop_bit 8 u)]) @
      drop (off + 2) buf)"
  using update_two [of off buf]
  by (simp add: Let_def del: list_update.simps)

lemma thousands_loop_pixel:
  assumes "i mod 4 = 0" "off + 1 < length buf"
  shows "thousands_loop be (r # g # b # a # pix) i u off buf =
         thousands_loop be pix (i + 4) (thousands_u16 r g b) (off + 2)
           (take off buf @ thousands_pixel be r g b @ drop (off + 2) buf)"
proof -
  from assms(1) have m: "(i + 1) mod 4 = 1" "(i + 1 + 1) mod 4 = 2" "(i + 1 + 1 + 1) mod 4 = 3"
    by presburger+
  have i4: "i + 1 + 1 + 1 + 1 = i + 4" by simp
  have u: "(push_bit 7 (ucast (r AND 248)) OR push_bit 2 (ucast (g AND 248)))
             OR ucast (drop_bit 3 b) = thousands_u16 r g b"
    by (simp add: thousands_u16_def or.assoc)
  have "thousands_loop be (r # g # b # a # pix) i u off buf =
        thousands_loop be (g # b # a # pix) (i + 1) (push_bit 7 (ucast (r AND 248))) off buf"
    by (rule loop_red [OF assms(1)])
  also have "\<dots> = thousands_loop be (b # a # pix) (i + 1 + 1)
        (push_bit 7 (ucast (r AND 248)) OR push_bit 2 (ucast (g AND 248))) off buf"
    by (rule loop_green [OF m(1)])
  also have "\<dots> = thousands_loop be (a # pix) (i + 1 + 1 + 1) (thousands_u16 r g b) off buf"
    unfolding u [symmetric] by (rule loop_blue [OF m(2)])
  also have "\<dots> = thousands_loop be pix (i + 1 + 1 + 1 + 1) (thousands_u16 r g b) (off + 2)
           (take off buf @ thousands_pixel be r g b @ drop (off + 2) buf)"
    unfolding thousands_pixel_def by (rule loop_alpha [OF m(3) assms(2)])
  finally show ?thesis unfolding i4 .
qed

lemma drop4:
  assumes "4 * k + 3 < length pix"
  shows "drop (4 * k) pix =
         pix ! (4 * k) # pix ! (4 * k + 1) # pix ! (4 * k + 2) # pix ! (4 * k + 3)
           # drop (4 * k + 4) pix"
proof -
  from assms have l: "4 * k < length pix" "4 * k + 1 < length pix" "4 * k + 2 < length pix"
    by simp_all
  have s: "Suc (4 * k) = 4 * k + 1" "Suc (4 * k + 1) = 4 * k + 2"
    "Suc (4 * k + 2) = 4 * k + 3" "Suc (4 * k + 3) = 4 * k + 4"
    by simp_all
  note c = Cons_nth_drop_Suc [symmetric]
  have "drop (4 * k) pix = pix ! (4 * k) # drop (4 * k + 1) pix"
    using c [OF l(1)] by (simp only: s)
  also have "drop (4 * k + 1) pix = pix ! (4 * k + 1) # drop (4 * k + 2) pix"
    using c [OF l(2)] by (simp only: s)
  also have "drop (4 * k + 2) pix = pix ! (4 * k + 2) # drop (4 * k + 3) pix"
    using c [OF l(3)] by (simp only: s)
  also have "drop (4 * k + 3) pix = pix ! (4 * k + 3) # drop (4 * k + 4) pix"
    using c [OF assms] by (simp only: s)
  finally show ?thesis .
qed

lemma thousands_loop_from:
  assumes "length pix = 4 * n" "2 * n \<le> length buf" "k \<le> n"
  shows "thousands_loop be (drop (4 * k) pix) (4 * k) u (2 * k) buf =
         Inr (take (2 * k) buf @ px_range be pix k n @ drop (2 * n) buf)"
  using assms(2,3)
proof (induction "n - k" arbitrary: k u buf)
  case 0
  then have "k = n" by simp
  with assms(1) show ?case by (simp add: px_range_empty)
next
  case (Suc d)
  then have kn: "k < n" and d: "d = n - Suc k" by simp_all
  have e: "4 * k + 4 = 4 * Suc k" "2 * k + 2 = 2 * Suc k" by simp_all
  define buf' where
    "buf' = take (2 * k) buf @ px_at be pix k @ drop (2 * k + 2) buf"
  have lb: "length buf' = length buf"
    using kn Suc.prems(1) by (simp add: buf'_def length_px_at)
  from kn assms(1) have "4 * k + 3 < length pix" by simp
  from drop4 [OF this]
  have "thousands_loop be (drop (4 * k) pix) (4 * k) u (2 * k) buf =
        thousands_loop be
          (pix ! (4 * k) # pix ! (4 * k + 1) # pix ! (4 * k + 2) # pix ! (4 * k + 3)
             # drop (4 * k + 4) pix) (4 * k) u (2 * k) buf"
    by simp
  also have "\<dots> = thousands_loop be (drop (4 * k + 4) pix) (4 * k + 4)
        (thousands_u16 (pix ! (4 * k)) (pix ! (4 * k + 1)) (pix ! (4 * k + 2))) (2 * k + 2) buf'"
    unfolding buf'_def px_at_def
    using kn Suc.prems(1) by (intro thousands_loop_pixel) simp_all
  also have "\<dots> = thousands_loop be (drop (4 * Suc k) pix) (4 * Suc k)
        (thousands_u16 (pix ! (4 * k)) (pix ! (4 * k + 1)) (pix ! (4 * k + 2))) (2 * Suc k) buf'"
    by (simp only: e)
  also have "\<dots> = Inr (take (2 * Suc k) buf' @ px_range be pix (Suc k) n @ drop (2 * n) buf')"
    using kn Suc.prems(1) lb by (intro Suc.hyps(1) d) simp_all
  also have "take (2 * Suc k) buf' = take (2 * k) buf @ px_at be pix k"
    using kn Suc.prems(1) by (simp add: buf'_def length_px_at)
  also have "drop (2 * n) buf' = drop (2 * n) buf"
  proof -
    from kn have "Suc (Suc (2 * n - 2)) = 2 * n" by simp
    with kn Suc.prems(1) show ?thesis by (simp add: buf'_def length_px_at)
  qed
  finally show ?case by (simp add: px_range_step [OF kn])
qed

lemma pix_index_bounds:
  assumes "contiguous p" "In x y (RGBA_Rect p)"
  shows "0 \<le> pix_index p x y"
    and "pix_index p x y < Dx (RGBA_Rect p) * Dy (RGBA_Rect p)"
proof -
  define w where "w = Dx (RGBA_Rect p)"
  define h where "h = Dy (RGBA_Rect p)"
  define row where "row = y - MinY (RGBA_Rect p)"
  define col where "col = x - MinX (RGBA_Rect p)"
  from assms(2) have row: "0 \<le> row" "row \<le> h - 1" and col: "0 \<le> col" "col < w"
    by (simp_all add: In_def row_def col_def w_def h_def Dx_def Dy_def)
  from col have w: "0 \<le> w" by simp
  have idx: "pix_index p x y = row * w + col"
    by (simp add: pix_index_def row_def col_def w_def)
  from row(1) w have "0 \<le> row * w" by simp
  with col(1) show "0 \<le> pix_index p x y" by (simp add: idx)
  from row(2) w have "row * w \<le> (h - 1) * w" by (rule mult_right_mono)
  then have "row * w + col < (h - 1) * w + w" using col(2) by simp
  also have "(h - 1) * w + w = w * h" by (simp add: algebra_simps)
  finally show "pix_index p x y < Dx (RGBA_Rect p) * Dy (RGBA_Rect p)"
    by (simp add: idx w_def h_def)
qed

lemma At_contiguous:
  assumes "contiguous p" "In x y (RGBA_Rect p)"
  shows "At (RGBA_Image p) x y =
         \<lparr>cR = Pix p ! (4 * nat (pix_index p x y)), cG = Pix p ! (4 * nat (pix_index p x y) + 1),
          cB = Pix p ! (4 * nat (pix_index p x y) + 2),
          cA = Pix p ! (4 * nat (pix_index p x y) + 3)\<rparr>"
proof -
  define i where "i = pix_index p x y"
  from pix_index_bounds [OF assms] have i: "0 \<le> i" "i < Dx (RGBA_Rect p) * Dy (RGBA_Rect p)"
    by (simp_all add: i_def)
  from assms(1) have off: "PixOffset p x y = 4 * i"
    by (simp add: PixOffset_def contiguous_def i_def pix_index_def algebra_simps)
  from assms(1) i have len: "4 * i + 4 \<le> int (length (Pix p))"
    by (simp add: contiguous_def)
  from i(1) have n: "nat (4 * i) = 4 * nat i" "nat (4 * i + 1) = 4 * nat i + 1"
    "nat (4 * i + 2) = 4 * nat i + 2" "nat (4 * i + 3) = 4 * nat i + 3"
    by (simp_all add: nat_mult_distrib nat_add_distrib)
  from assms(2) i(1) len show ?thesis
    by (simp add: RGBA_Image_def RGBAAt_def off n i_def [symmetric])
qed

lemma pushGeneric_x_contiguous:
  assumes p: "contiguous p" and f: "thousands_layout (format c)"
    and y: "MinY (RGBA_Rect p) \<le> y" "y < MaxY (RGBA_Rect p)"
    and x: "MinX (RGBA_Rect p) \<le> x" "x \<le> MaxX (RGBA_Rect p)"
  shows "pushGeneric_x c (Some (RGBA_Image p)) (RGBA_Rect p) y x =
         Inr (c\<lparr>bw := bw c @ px_range (BigEndian (format c) \<noteq> 0) (Pix p)
                (nat (pix_index p x y)) (nat (pix_index p (MaxX (RGBA_Rect p)) y))\<rparr>)"
  using f x
proof (induction "nat (MaxX (RGBA_Rect p) - x)" arbitrary: x c)
  case 0
  then have "x = MaxX (RGBA_Rect p)" by simp
  then show ?case
    by (simp add: pushGeneric_x.simps [of c _ "RGBA_Rect p" y "MaxX (RGBA_Rect p)"]
        px_range_empty)
next
  case (Suc d)
  define be where "be = (BigEndian (format c) \<noteq> 0)"
  define k where "k = nat (pix_index p x y)"
  define n where "n = nat (pix_index p (MaxX (RGBA_Rect p)) y)"
  define c' where "c' = c\<lparr>bw := bw c @ px_at be (Pix p) k\<rparr>"
  from Suc.hyps(2) have lt: "x < MaxX (RGBA_Rect p)" by simp
  with y Suc.prems(2) have inr: "In x y (RGBA_Rect p)" by (simp add: In_def)
  from pix_index_bounds(1) [OF p inr] have i0: "0 \<le> pix_index p x y" .
  have nxt: "pix_index p (x + 1) y = pix_index p x y + 1"
    by (simp add: pix_index_def)
  have le: "pix_index p (x + 1) y \<le> pix_index p (MaxX (RGBA_Rect p)) y"
    using lt by (simp add: pix_index_def)
  from i0 nxt have k1: "nat (pix_index p (x + 1) y) = Suc k" by (simp add: k_def)
  from le i0 nxt have kn: "k < n" by (simp add: k_def n_def)
  from Suc.prems(1) have px: "pushGeneric_pixel (format c) (At (RGBA_Image p) x y) = Inr (px_at be (Pix p) k)"
    unfolding At_contiguous [OF p inr] px_at_def be_def k_def thousands_layout_def
    by (intro pushGeneric_pixel_thousands) simp_all
  have "pushGeneric_x c (Some (RGBA_Image p)) (RGBA_Rect p) y x =
        pushGeneric_x c' (Some (RGBA_Image p)) (RGBA_Rect p) y (x + 1)"
    using lt px by (simp add: pushGeneric_x.simps [of c _ "RGBA_Rect p" y x] c'_def)
  also have "\<dots> = Inr (c'\<lparr>bw := bw c' @ px_range (BigEndian (format c') \<noteq> 0) (Pix p)
                (nat (pix_index p (x + 1) y)) n\<rparr>)"
    unfolding n_def
    using Suc.hyps(2) Suc.prems lt by (intro Suc.hyps(1)) (simp_all add: c'_def)
  also have "\<dots> = Inr (c\<lparr>bw := bw c @ px_range be (Pix p) k n\<rparr>)"
    by (simp add: c'_def k1 px_range_step [OF kn] be_def)
  finally show ?case by (simp add: be_def k_def n_def)
qed

lemma pushGeneric_y_contiguous:
  assumes p: "contiguous p" and f: "thousands_layout (format c)"
    and y: "MinY (RGBA_Rect p) \<le> y" "y \<le> MaxY (RGBA_Rect p)"
  shows "pushGeneric_y c (Some (RGBA_Image p)) (RGBA_Rect p) y =
         Inr (c\<lparr>bw := bw c @ px_range (BigEndian (format c) \<noteq> 0) (Pix p)
                (nat (pix_index p (MinX (RGBA_Rect p)) y))
                (nat (Dx (RGBA_Rect p) * Dy (RGBA_Rect p)))\<rparr>)"
  using f y
proof (induction "nat (MaxY (RGBA_Rect p) - y)" arbitrary: y c)
  case 0
  then have "y = MaxY (RGBA_Rect p)" by simp
  then show ?case
    by (simp add: pushGeneric_y.simps [of c _ "RGBA_Rect p" "MaxY (RGBA_Rect p)"]
        px_range_empty pix_index_def Dy_def mult.commute)
next
  case (Suc d)
  define be where "be = (BigEndian (format c) \<noteq> 0)"
  define w where "w = Dx (RGBA_Rect p)"
  define h where "h = Dy (RGBA_Rect p)"
  define a where "a = nat (pix_index p (MinX (RGBA_Rect p)) y)"
  define b where "b = nat (pix_index p (MaxX (RGBA_Rect p)) y)"
  define c' where "c' = c\<lparr>bw := bw c @ px_range be (Pix p) a b\<rparr>"
  from Suc.hyps(2) have lt: "y < MaxY (RGBA_Rect p)" by simp
  from p have w0: "0 \<le> w" and mm: "MinX (RGBA_Rect p) \<le> MaxX (RGBA_Rect p)"
    by (simp_all add: contiguous_def w_def Dx_def)
  have ia: "pix_index p (MinX (RGBA_Rect p)) y = (y - MinY (RGBA_Rect p)) * w"
    by (simp add: pix_index_def w_def)
  have ib: "pix_index p (MaxX (RGBA_Rect p)) y = (y - MinY (RGBA_Rect p)) * w + w"
    by (simp add: pix_index_def w_def Dx_def)
  have nxt: "pix_index p (MinX (RGBA_Rect p)) (y + 1) = pix_index p (MaxX (RGBA_Rect p)) y"
    by (simp add: pix_index_def Dx_def algebra_simps)
  from Suc.prems(2) w0 have row0: "0 \<le> (y - MinY (RGBA_Rect p)) * w" by simp
  from lt have "y - MinY (RGBA_Rect p) + 1 \<le> h" by (simp add: h_def Dy_def)
  from mult_right_mono [OF this w0] have top: "(y - MinY (RGBA_Rect p)) * w + w \<le> w * h"
    by (simp add: algebra_simps)
  from row0 w0 have ab: "a \<le> b" by (simp add: a_def b_def ia ib)
  from top have bn: "b \<le> nat (w * h)" by (simp add: b_def ib)
  have row: "pushGeneric_x c (Some (RGBA_Image p)) (RGBA_Rect p) y (MinX (RGBA_Rect p)) = Inr c'"
    unfolding c'_def be_def a_def b_def
    using Suc.prems lt mm by (intro pushGeneric_x_contiguous [OF p]) simp_all
  have "pushGeneric_y c (Some (RGBA_Image p)) (RGBA_Rect p) y =
        pushGeneric_y c' (Some (RGBA_Image p)) (RGBA_Rect p) (y + 1)"
    using lt row by (simp add: pushGeneric_y.simps [of c _ "RGBA_Rect p" y])
  also have "\<dots> = Inr (c'\<lparr>bw := bw c' @ px_range (BigEndian (format c') \<noteq> 0) (Pix p)
                (nat (pix_index p (MinX (RGBA_Rect p)) (y + 1))) (nat (w * h))\<rparr>)"
    unfolding w_def h_def
    using Suc.hyps(2) Suc.prems lt by (intro Suc.hyps(1)) (simp_all add: c'_def)
  also have "\<dots> = Inr (c\<lparr>bw := bw c @ px_range be (Pix p) a (nat (w * h))\<rparr>)"
    using px_range_append [OF ab bn, of be "Pix p"]
    by (simp add: c'_def nxt b_def [symmetric] be_def)
  finally show ?case by (simp add: be_def a_def w_def h_def)
qed

lemma fast_path_contiguous:
  assumes p: "contiguous p"
  shows "\<exists>buf. pushRGBAScreensThousandsLocked c p =
           Inr (c\<lparr>buf8 := buf,
                  bw := bw c @ px_range (BigEndian (format c) \<noteq> 0) (Pix p) 0
                          (nat (Dx (RGBA_Rect p) * Dy (RGBA_Rect p)))\<rparr>)"
proof -
  define n where "n = nat (Dx (RGBA_Rect p) * Dy (RGBA_Rect p))"
  define be where "be = (BigEndian (format c) \<noteq> 0)"
  define buf where "buf = (if length (buf8 c) < n * 2 then replicate (n * 2) 0 else buf8 c)"
  from p have "0 \<le> Dx (RGBA_Rect p)" "0 \<le> Dy (RGBA_Rect p)"
    by (simp_all add: contiguous_def Dx_def Dy_def)
  then have m0: "0 \<le> Dx (RGBA_Rect p) * Dy (RGBA_Rect p)" by simp
  from p have "int (length (Pix p)) = 4 * (Dx (RGBA_Rect p) * Dy (RGBA_Rect p))"
    by (simp add: contiguous_def)
  also from m0 have "\<dots> = int (4 * n)" by (simp add: n_def)
  finally have len: "length (Pix p) = 4 * n" by (simp only: of_nat_eq_iff)
  then have pixels: "length (Pix p) div 4 = n" by simp
  have lb: "2 * n \<le> length buf" by (simp add: buf_def)
  from thousands_loop_from [OF len lb, of 0 be 0]
  have loop: "thousands_loop be (Pix p) 0 0 0 buf = Inr (px_range be (Pix p) 0 n @ drop (2 * n) buf)"
    by simp
  have tk: "take (n * 2) (px_range be (Pix p) 0 n @ drop (2 * n) buf) = px_range be (Pix p) 0 n"
    by (simp add: length_px_range mult.commute)
  show ?thesis
    unfolding pushRGBAScreensThousandsLocked_def pixels Let_def buf_def [symmetric]
      be_def [symmetric] n_def [symmetric]
    by (rule exI [of _ "px_range be (Pix p) 0 n @ drop (2 * n) buf"])
      (simp add: loop length_px_range)
qed

text \<open>
  C10. Take an RGBA image whose buffer holds exactly the pixels of its bounds, row after
  row, with a stride of four times the width, and a connection whose format has 16 bits
  per pixel, true colour, the maxima \<open>0x1F\<close> and the shifts 10, 5, 0, with either byte
  order. Then \<open>pushRGBAScreensThousandsLocked\<close> on the image and \<open>pushGenericLocked\<close> on
  the image and its full bounds both return, and they append the same bytes to the output;
  the fast path changes its scratch buffer besides.
\<close>

theorem fast_path_equals_generic:
  assumes "MinX (RGBA_Rect p) \<le> MaxX (RGBA_Rect p)" "MinY (RGBA_Rect p) \<le> MaxY (RGBA_Rect p)"
    and "Stride p = 4 * Dx (RGBA_Rect p)"
    and "int (length (Pix p)) = 4 * (Dx (RGBA_Rect p) * Dy (RGBA_Rect p))"
    and "BPP (format c) = 16" "TrueColour (format c) \<noteq> 0"
    and "RedMax (format c) = 0x1f" "GreenMax (format c) = 0x1f" "BlueMax (format c) = 0x1f"
    and "RedShift (format c) = 10" "GreenShift (format c) = 5" "BlueShift (format c) = 0"
  shows "\<exists>out buf.
           pushRGBAScreensThousandsLocked c p = Inr (c\<lparr>buf8 := buf, bw := bw c @ out\<rparr>) \<and>
           pushGenericLocked c (Some (RGBA_Image p)) (RGBA_Rect p) = Inr (c\<lparr>bw := bw c @ out\<rparr>)"
proof -
  from assms(1-4) have p: "contiguous p" by (simp add: contiguous_def)
  from assms(5,7-12) have f: "thousands_layout (format c)" by (simp add: thousands_layout_def)
  define out where
    "out = px_range (BigEndian (format c) \<noteq> 0) (Pix p) 0 (nat (Dx (RGBA_Rect p) * Dy (RGBA_Rect p)))"
  from fast_path_contiguous [OF p, of c] obtain buf where
    fast: "pushRGBAScreensThousandsLocked c p = Inr (c\<lparr>buf8 := buf, bw := bw c @ out\<rparr>)"
    unfolding out_def by blast
  from pushGeneric_y_contiguous [OF p f order_refl assms(2)]
  have "pushGenericLocked c (Some (RGBA_Image p)) (RGBA_Rect p) = Inr (c\<lparr>bw := bw c @ out\<rparr>)"
    by (simp add: pushGenericLocked_def out_def pix_index_def)
  with fast show ?thesis by blast
qed

theorem fast_path_equals_generic_witness:
  "pushRGBAScreensThousandsLocked ((newConn (NewServer 2 1) [])\<lparr>format := defaultFormat\<rparr>)
     two_pixels =
     Inr ((newConn (NewServer 2 1) [])
          \<lparr>format := defaultFormat, buf8 := [0x00, 0x7c, 0xe0, 0x03],
           bw := [0x00, 0x7c, 0xe0, 0x03]\<rparr>) \<and>
   pushGenericLocked ((newConn (NewServer 2 1) [])\<lparr>format := defaultFormat\<rparr>)
     (Some (RGBA_Image two_pixels)) (RGBA_Rect two_pixels) =
     Inr ((newConn (NewServer 2 1) [])
          \<lparr>format := defaultFormat, bw := [0x00, 0x7c, 0xe0, 0x03]\<rparr>) \<and>
   (\<exists>out buf.
     pushRGBAScreensThousandsLocked
       ((newConn (NewServer 2 1) [])\<lparr>format := defaultFormat\<rparr>) two_pixels =
       Inr ((newConn (NewServer 2 1) [])\<lparr>format := defaultFormat\<rparr>
            \<lparr>buf8 := buf,
             bw := bw ((newConn (NewServer 2 1) [])\<lparr>format := defaultFormat\<rparr>) @ out\<rparr>) \<and>
     pushGenericLocked ((newConn (NewServer 2 1) [])\<lparr>format := defaultFormat\<rparr>)
       (Some (RGBA_Image two_pixels)) (RGBA_Rect two_pixels) =
       Inr ((newConn (NewServer 2 1) [])\<lparr>format := defaultFormat\<rparr>
            \<lparr>bw := bw ((newConn (NewServer 2 1) [])\<lparr>format := defaultFormat\<rparr>) @ out\<rparr>))"
proof (intro conjI)
  have r4: "replicate 4 (0 :: byte) = [0, 0, 0, 0]"
    by (simp add: numeral_eq_Suc)
  show "pushRGBAScreensThousandsLocked ((newConn (NewServer 2 1) [])\<lparr>format := defaultFormat\<rparr>)
     two_pixels =
     Inr ((newConn (NewServer 2 1) [])
          \<lparr>format := defaultFormat, buf8 := [0x00, 0x7c, 0xe0, 0x03],
           bw := [0x00, 0x7c, 0xe0, 0x03]\<rparr>)"
    by (simp add: pushRGBAScreensThousandsLocked_def two_pixels_def newConn_def defaultFormat_def
        Let_def r4)
  show "pushGenericLocked ((newConn (NewServer 2 1) [])\<lparr>format := defaultFormat\<rparr>)
     (Some (RGBA_Image two_pixels)) (RGBA_Rect two_pixels) =
     Inr ((newConn (NewServer 2 1) [])
          \<lparr>format := defaultFormat, bw := [0x00, 0x7c, 0xe0, 0x03]\<rparr>)"
    by (simp add: pushGenericLocked_def pushGeneric_y.simps pushGeneric_x.simps two_pixels_def
        Rect_def RGBA_Image_def RGBAAt_def In_def PixOffset_def newConn_def defaultFormat_def
        pushGeneric_pixel_def RGBA_def widen_def inRange_def bytes_u16_be_def)
  show "\<exists>out buf.
     pushRGBAScreensThousandsLocked
       ((newConn (NewServer 2 1) [])\<lparr>format := defaultFormat\<rparr>) two_pixels =
       Inr ((newConn (NewServer 2 1) [])\<lparr>format := defaultFormat\<rparr>
            \<lparr>buf8 := buf,
             bw := bw ((newConn (NewServer 2 1) [])\<lparr>format := defaultFormat\<rparr>) @ out\<rparr>) \<and>
     pushGenericLocked ((newConn (NewServer 2 1) [])\<lparr>format := defaultFormat\<rparr>)
       (Some (RGBA_Image two_pixels)) (RGBA_Rect two_pixels) =
       Inr ((newConn (NewServer 2 1) [])\<lparr>format := defaultFormat\<rparr>
            \<lparr>bw := bw ((newConn (NewServer 2 1) [])\<lparr>format := defaultFormat\<rparr>) @ out\<rparr>)"
    by (rule fast_path_equals_generic)
      (simp_all add: two_pixels_def Rect_def Dx_def Dy_def newConn_def defaultFormat_def)
qed

end
